theory Spec2Isabelle
  imports Complex_Main "HOL-Library.Word" "HOL-Library.Multiset"
begin

section \<open>Values of the host language\<close>

text \<open>
  A JavaScript string is a sequence of UTF-16 code units; \<open>length\<close>, \<open>substring\<close> and
  \<open>===\<close> work on code units. \<open>js\<close> writes an ASCII literal as such a string.
\<close>

type_synonym utf16 = "16 word list"

definition js :: "string \<Rightarrow> utf16" where
  "js s = map (\<lambda>c. of_nat (of_char c)) s"

text \<open>
  \<open>new Date(s).getTime()\<close> is a builtin of the host: it yields an integral number of
  milliseconds, or NaN for a string that is no date. The functions below take it as the
  parameter \<open>getTime\<close>, with \<open>None\<close> for NaN, and hold for every such parser.
\<close>

type_synonym dateParse = "utf16 \<Rightarrow> int option"

text \<open>The comparison \<open>a > b\<close> on numbers: false as soon as one side is NaN.\<close>

definition jsGreater :: "int option \<Rightarrow> int option \<Rightarrow> bool" where
  "jsGreater a b = (case a of None \<Rightarrow> False
                    | Some x \<Rightarrow> (case b of None \<Rightarrow> False | Some y \<Rightarrow> y < x))"

text \<open>\<open>Array.prototype.findIndex\<close>: the first index that satisfies \<open>p\<close>; \<open>None\<close> is \<open>-1\<close>.\<close>

fun findIndex :: "('a \<Rightarrow> bool) \<Rightarrow> 'a list \<Rightarrow> nat option" where
  "findIndex p [] = None"
| "findIndex p (x # xs) =
     (if p x then Some 0 else map_option Suc (findIndex p xs))"

text \<open>
  \<open>Array.prototype.sort\<close> with a comparator is stable; a comparator result of NaN counts
  as \<open>0\<close>. With a consistent comparator every stable sort returns the same list, here by
  insertion, last element first.
\<close>

fun insertBy :: "('a \<Rightarrow> 'a \<Rightarrow> int) \<Rightarrow> 'a \<Rightarrow> 'a list \<Rightarrow> 'a list" where
  "insertBy cmp x [] = [x]"
| "insertBy cmp x (y # ys) =
     (if cmp x y \<le> 0 then x # y # ys else y # insertBy cmp x ys)"

definition sortBy :: "('a \<Rightarrow> 'a \<Rightarrow> int) \<Rightarrow> 'a list \<Rightarrow> 'a list" where
  "sortBy cmp xs = foldr (insertBy cmp) xs []"


section \<open>Check-ins\<close>

text \<open>
  \<open>NewCheckInMessage\<close> (webSocketClient.ts) and \<open>CheckInData\<close> (secondaryCheckInView.ts)
  carry the same six fields; the discriminator \<open>type: 'new_checkin'\<close> of the former is the
  constructor of the inbound message that holds it.
\<close>

record checkIn =
  username :: utf16
  tags :: "utf16 list"
  message :: utf16
  timestamp :: utf16
  avatarUrl :: "utf16 option"
  snippet :: "utf16 option"

text \<open>
  \<open>CheckInMessage\<close>, the frame a client submits. \<open>signMessage\<close> takes any object and
  reads seven of its fields: a \<open>signable\<close> with any further fields.
\<close>

record signable = checkIn +
  type :: utf16

record checkInMessage = signable +
  token :: "utf16 option"
  signature :: "utf16 option"
  signatureTimestamp :: "utf16 option"


section \<open>The view's buffer (secondaryCheckInView.ts)\<close>

datatype viewEffect =
    PostUpdateCheckIns "checkIn list"
  | PostUpdateOnlineUsers int
  | ExecuteNotifyNewCheckIn
  | FireCheckInsCountChanged nat

text \<open>\<open>view\<close> is the field \<open>_view\<close>: \<open>None\<close> while undefined, else its \<open>visible\<close> flag.\<close>

record secondaryCheckInView =
  view :: "bool option"
  checkIns :: "checkIn list"
  webviewReady :: bool
  pendingCheckIns :: "checkIn list"
  onlineUsersCount :: int
  newCheckInsCount :: nat

definition isVisible :: "secondaryCheckInView \<Rightarrow> bool" where
  "isVisible v = (view v = Some True)"

definition updateOnlineUsersCount :: "secondaryCheckInView \<Rightarrow> viewEffect list" where
  "updateOnlineUsersCount v =
     (if view v \<noteq> None \<and> webviewReady v
      then [PostUpdateOnlineUsers (secondaryCheckInView.onlineUsersCount v)] else [])"

text \<open>The comparator of \<open>updateView\<close>: \<open>getTime b - getTime a\<close>.\<close>

definition newestFirst :: "dateParse \<Rightarrow> checkIn \<Rightarrow> checkIn \<Rightarrow> int" where
  "newestFirst getTime a b =
     (case getTime (timestamp b) of None \<Rightarrow> 0
      | Some tb \<Rightarrow> (case getTime (timestamp a) of None \<Rightarrow> 0 | Some ta \<Rightarrow> tb - ta))"

text \<open>\<open>pendingCheckIns.push(c)\<close> unless an entry of that username is pending.\<close>

definition pushPending :: "checkIn list \<Rightarrow> checkIn \<Rightarrow> checkIn list" where
  "pushPending pending c =
     (if list_ex (\<lambda>p. username p = username c) pending then pending else pending @ [c])"

definition updateView ::
  "dateParse \<Rightarrow> secondaryCheckInView \<Rightarrow> secondaryCheckInView \<times> viewEffect list" where
  "updateView getTime v =
     (if view v \<noteq> None \<and> webviewReady v then
        (let sortedCheckIns = sortBy (newestFirst getTime) (checkIns v)
         in (v\<lparr>pendingCheckIns := []\<rparr>,
             PostUpdateCheckIns sortedCheckIns # updateOnlineUsersCount v))
      else if \<not> webviewReady v \<and> checkIns v \<noteq> [] then
        (v\<lparr>pendingCheckIns := foldl pushPending (pendingCheckIns v) (checkIns v)\<rparr>, [])
      else (v, []))"

text \<open>What \<open>addCheckIn\<close> does once the entry is new or updated.\<close>

definition afterChange ::
  "dateParse \<Rightarrow> checkIn \<Rightarrow> secondaryCheckInView \<Rightarrow> secondaryCheckInView \<times> viewEffect list" where
  "afterChange getTime c v =
     (let v1 = (if \<not> isVisible v then v\<lparr>newCheckInsCount := newCheckInsCount v + 1\<rparr> else v);
          e1 = (if \<not> isVisible v then [ExecuteNotifyNewCheckIn] else []);
          e2 = [FireCheckInsCountChanged (length (checkIns v1))];
          shown = (if webviewReady v1 then updateView getTime v1
                   else (v1\<lparr>pendingCheckIns := pushPending (pendingCheckIns v1) c\<rparr>, []))
      in (fst shown, e1 @ e2 @ snd shown))"

definition addCheckIn ::
  "dateParse \<Rightarrow> checkIn \<Rightarrow> secondaryCheckInView \<Rightarrow> secondaryCheckInView \<times> viewEffect list" where
  "addCheckIn getTime c v =
     (case findIndex (\<lambda>x. username x = username c) (checkIns v) of
        Some existingIndex \<Rightarrow>
          (let existingTimestamp = getTime (timestamp (checkIns v ! existingIndex));
               newTimestamp = getTime (timestamp c)
           in if jsGreater newTimestamp existingTimestamp
              then afterChange getTime c (v\<lparr>checkIns := (checkIns v)[existingIndex := c]\<rparr>)
              else (v, []))
      | None \<Rightarrow>
          (let pushed = checkIns v @ [c];
               limited = (if length pushed > 100 then take 100 pushed else pushed)
           in afterChange getTime c (v\<lparr>checkIns := limited\<rparr>)))"

text \<open>A run of \<open>addCheckIn\<close> calls, in arrival order.\<close>

fun addCheckIns :: "dateParse \<Rightarrow> checkIn list \<Rightarrow> secondaryCheckInView \<Rightarrow> secondaryCheckInView" where
  "addCheckIns getTime [] v = v"
| "addCheckIns getTime (c # cs) v = addCheckIns getTime cs (fst (addCheckIn getTime c v))"


section \<open>The relay client (webSocketClient.ts)\<close>

subsection \<open>State, effects and the host's functions\<close>

datatype readyState = CONNECTING | OPEN | CLOSING | CLOSED

text \<open>What \<open>JSON.parse(data.toString()) as Message\<close> yields: a member of the union
  \<open>Message\<close> by its \<open>type\<close>, a value of no handled type, or an exception (a syntax error,
  or reading \<open>type\<close> of \<open>null\<close>).\<close>

datatype inbound =
    ParseThrows
  | NewCheckIn checkIn
  | OnlineUsers int
  | ErrorNotice utf16
  | OtherValue

text \<open>The object \<open>cleanMessage\<close> of \<open>signMessage\<close>, its seven fields in order.\<close>

datatype cleanMessage =
  CleanMessage utf16 utf16 "utf16 list" utf16 utf16 "utf16 option" "utf16 option"

text \<open>
  Functions and constants the client takes from its host and its configuration:
  the date parser, \<open>Date.prototype.toISOString\<close>, \<open>JSON.stringify\<close>, \<open>JSON.parse\<close>,
  HMAC-SHA-256 in hexadecimal (key, then data) and \<open>config.signing.secret\<close>.
\<close>

record host =
  dateTime :: dateParse
  toISOString :: "int \<Rightarrow> utf16"
  jsonStringify :: "cleanMessage \<Rightarrow> utf16"
  jsonParse :: "utf16 \<Rightarrow> inbound"
  hmacSha256Hex :: "utf16 \<Rightarrow> utf16 \<Rightarrow> utf16"
  signingSecret :: utf16

datatype outFrame =
    CheckInFrame checkInMessage
  | OnlineUsersRequest
  | HistoryRequest

datatype timer =
    ConnectionTimeout
  | ReconnectTimer
  | RetryTimer
  | HistoryIdle
  | HistoryCeiling
  | LocalEcho checkIn
  | CooldownTick

datatype effect =
    FireMessageReceived checkIn
  | FireConnectionStatusChanged bool
  | FireHistoryReceived
  | FireOnlineUsersChanged int
  | FireCooldownChanged real
  | ShowErrorMessage utf16
  | ConsoleLog
  | ConsoleError
  | SetTimeout timer real
  | SetInterval timer real
  | ClearTimeout timer
  | GetAuthToken
  | NewWebSocket "utf16 option"
  | SocketSend outFrame
  | SocketClose
  | SocketRemoveAllListeners

text \<open>
  \<open>socket\<close> is \<open>None\<close> for \<open>null\<close>, else the \<open>readyState\<close> of the socket it refers to.
  \<open>messageCount\<close> and \<open>historyTimeout\<close> are the variables the handlers of one connection
  close over; \<open>historyTimeout\<close> tells whether a timer handle is held.
\<close>

record webSocketClient =
  socket :: "readyState option"
  reconnectInterval :: real
  initialHistoryReceived :: bool
  allReceivedCheckIns :: "checkIn list"
  receivingInitialHistory :: bool
  lastHistoryMessageTime :: int
  onlineUsersCount :: int
  snippets :: "utf16 list"
  snippetsLoaded :: bool
  lastCheckInTime :: int
  cooldownPeriodMs :: real
  autoReconnect :: bool
  messageCount :: nat
  historyTimeout :: bool

text \<open>The field initialisers and the constructor (without \<open>autoConnect\<close>), for a
  configured cooldown of \<open>minutes\<close>.\<close>

definition newClient :: "real \<Rightarrow> webSocketClient" where
  "newClient minutes =
     \<lparr>socket = None, reconnectInterval = 5000, initialHistoryReceived = False,
      allReceivedCheckIns = [], receivingInitialHistory = False,
      lastHistoryMessageTime = 0, onlineUsersCount = 0, snippets = [],
      snippetsLoaded = False, lastCheckInTime = 0,
      cooldownPeriodMs = minutes * 60 * 1000, autoReconnect = True,
      messageCount = 0, historyTimeout = False\<rparr>"

subsection \<open>The client's buffer\<close>

text \<open>The body of \<open>storeCheckIn\<close> on the contents of \<open>allReceivedCheckIns\<close>.\<close>

definition storeInto :: "dateParse \<Rightarrow> checkIn list \<Rightarrow> checkIn \<Rightarrow> checkIn list" where
  "storeInto getTime received c =
     (case findIndex (\<lambda>x. username x = username c) received of
        Some existingIndex \<Rightarrow>
          (let existingTimestamp = getTime (timestamp (received ! existingIndex));
               newTimestamp = getTime (timestamp c)
           in if jsGreater newTimestamp existingTimestamp
              then received[existingIndex := c] else received)
      | None \<Rightarrow> received @ [c])"

definition storeCheckIn :: "dateParse \<Rightarrow> checkIn \<Rightarrow> webSocketClient \<Rightarrow> webSocketClient" where
  "storeCheckIn getTime c w =
     w\<lparr>allReceivedCheckIns := storeInto getTime (allReceivedCheckIns w) c\<rparr>"

fun storeCheckIns :: "dateParse \<Rightarrow> checkIn list \<Rightarrow> webSocketClient \<Rightarrow> webSocketClient" where
  "storeCheckIns getTime [] w = w"
| "storeCheckIns getTime (c # cs) w = storeCheckIns getTime cs (storeCheckIn getTime c w)"

text \<open>
  \<open>getAllCheckIns\<close> returns \<open>[...this.allReceivedCheckIns]\<close>. Arrays are objects: in a
  store of arrays a reference is an index, and the spread allocates a new array with
  the elements of the old one.
\<close>

type_synonym arrayStore = "checkIn list list"

definition spread :: "arrayStore \<Rightarrow> nat \<Rightarrow> arrayStore \<times> nat" where
  "spread st r = (st @ [st ! r], length st)"

text \<open>Any write to the array at \<open>r\<close> (an assignment, \<open>push\<close>, an in-place \<open>sort\<close>)
  replaces its contents.\<close>

definition writeArray :: "arrayStore \<Rightarrow> nat \<Rightarrow> checkIn list \<Rightarrow> arrayStore" where
  "writeArray st r xs = st[r := xs]"

definition getAllCheckIns :: "arrayStore \<Rightarrow> nat \<Rightarrow> arrayStore \<times> nat" where
  "getAllCheckIns st received = spread st received"

subsection \<open>Cooldown\<close>

definition canCheckIn :: "int \<Rightarrow> webSocketClient \<Rightarrow> bool" where
  "canCheckIn now w = (cooldownPeriodMs w \<le> real_of_int (now - lastCheckInTime w))"

definition getRemainingCooldownTime :: "int \<Rightarrow> webSocketClient \<Rightarrow> real" where
  "getRemainingCooldownTime now w =
     (let elapsed = real_of_int (now - lastCheckInTime w)
      in if cooldownPeriodMs w \<le> elapsed then 0 else cooldownPeriodMs w - elapsed)"

text \<open>\<open>startCooldownTimer\<close> reads the clock twice.\<close>

definition startCooldownTimer :: "int \<Rightarrow> int \<Rightarrow> webSocketClient \<Rightarrow> effect list" where
  "startCooldownTimer now1 now2 w =
     (if getRemainingCooldownTime now1 w \<le> 0 then []
      else [FireCooldownChanged (getRemainingCooldownTime now2 w), SetInterval CooldownTick 1000])"


subsection \<open>Signing\<close>

text \<open>\<open>Number.prototype.toString\<close> on an integer: its decimal digits.\<close>

fun natDigits :: "nat \<Rightarrow> utf16" where
  "natDigits n =
     (if n < 10 then [of_nat (48 + n)]
      else natDigits (n div 10) @ [of_nat (48 + n mod 10)])"

declare natDigits.simps [simp del]

definition decimal :: "int \<Rightarrow> utf16" where
  "decimal i = (if i < 0 then 0x2D # natDigits (nat (- i)) else natDigits (nat i))"

text \<open>\<open>signMessage\<close>; \<open>now\<close> is what \<open>Date.now()\<close> reads.\<close>

definition signMessage :: "host \<Rightarrow> int \<Rightarrow> 'a signable_scheme \<Rightarrow> utf16 \<times> utf16" where
  "signMessage h now m =
     (let stamp = decimal now;
          clean = CleanMessage (type m) (username m) (tags m) (message m)
                    (timestamp m) (avatarUrl m) (snippet m);
          messageStr = jsonStringify h clean;
          dataToSign = messageStr @ stamp
      in (hmacSha256Hex h (signingSecret h) dataToSign, stamp))"

subsection \<open>Submission\<close>

definition MAX_CHARS :: nat where
  "MAX_CHARS = 42"

text \<open>\<open>message.length > MAX_CHARS ? message.substring(0, MAX_CHARS) : message\<close>\<close>

definition truncateMessage :: "utf16 \<Rightarrow> utf16" where
  "truncateMessage m = (if length m > MAX_CHARS then take MAX_CHARS m else m)"

text \<open>\<open>getRandomSnippet\<close>; \<open>random\<close> is what \<open>Math.random()\<close> returns, and an index out
  of range reads \<open>undefined\<close>.\<close>

definition getRandomSnippet :: "real \<Rightarrow> webSocketClient \<Rightarrow> utf16 option" where
  "getRandomSnippet random w =
     (if \<not> snippetsLoaded w \<or> length (snippets w) = 0
      then Some ([0xD83D, 0xDD0D] @ js '' is working on something mysterious'')
      else (let i = \<lfloor>random * real (length (snippets w))\<rfloor>
            in if 0 \<le> i \<and> nat i < length (snippets w)
               then Some (snippets w ! nat i) else None))"

definition githubAvatar :: "utf16 \<Rightarrow> utf16" where
  "githubAvatar user = js ''https://github.com/'' @ user @ js ''.png''"

definition simulateCheckInResponse ::
  "host \<Rightarrow> int \<Rightarrow> utf16 \<Rightarrow> utf16 list \<Rightarrow> utf16 \<Rightarrow> utf16 option \<Rightarrow> webSocketClient
   \<Rightarrow> bool \<times> webSocketClient \<times> effect list" where
  "simulateCheckInResponse h now user tgs msg snip w =
     (let truncatedMessage = truncateMessage msg;
          checkInMessage = \<lparr>username = user, tags = tgs, message = truncatedMessage,
                            timestamp = toISOString h now,
                            avatarUrl = Some (githubAvatar user), snippet = snip\<rparr>
      in (True, storeCheckIn (dateTime h) checkInMessage w,
          [SetTimeout (LocalEcho checkInMessage) 500]))"

text \<open>
  \<open>sendCheckIn\<close> up to the request for the token: \<open>None\<close> when the promise resolves to
  false at once, else the truncated message and the snippet its continuation closes
  over. \<open>now\<close> is the clock read by \<open>canCheckIn\<close>.
\<close>

definition sendCheckIn ::
  "real \<Rightarrow> int \<Rightarrow> utf16 \<Rightarrow> webSocketClient \<Rightarrow> (utf16 \<times> utf16 option) option" where
  "sendCheckIn random now msg w =
     (if \<not> canCheckIn now w then None
      else Some (truncateMessage msg, getRandomSnippet random w))"

text \<open>The clock readings of the continuation, in the order it takes them.\<close>

record clock =
  stampTime :: int
  signTime :: int
  recordTime :: int
  timerTime1 :: int
  timerTime2 :: int

text \<open>
  The continuation of \<open>sendCheckIn\<close> on the token (\<open>getAuthToken\<close> resolves to a token
  or to \<open>undefined\<close>; it catches its own errors). The result is the value of the promise.
\<close>

definition sendCheckIn_then ::
  "host \<Rightarrow> clock \<Rightarrow> utf16 \<Rightarrow> utf16 list \<Rightarrow> utf16 \<Rightarrow> utf16 \<times> utf16 option \<Rightarrow> utf16 option
   \<Rightarrow> webSocketClient \<Rightarrow> bool \<times> webSocketClient \<times> effect list" where
  "sendCheckIn_then h clk user tgs msg closure tok w =
     (let truncatedMessage = fst closure; randomSnippet = snd closure
      in if socket w = Some OPEN then
           (let checkInMessage =
                  \<lparr>username = user, tags = tgs, message = truncatedMessage,
                   timestamp = toISOString h (stampTime clk),
                   avatarUrl = Some (githubAvatar user), snippet = randomSnippet,
                   type = js ''checkin'', token = None, signature = None,
                   signatureTimestamp = None\<rparr>;
                signed = signMessage h (signTime clk) checkInMessage;
                messageToSend = checkInMessage\<lparr>token := tok, signature := Some (fst signed),
                                  signatureTimestamp := Some (snd signed)\<rparr>;
                localUpdate = \<lparr>username = user, tags = tgs, message = truncatedMessage,
                               timestamp = timestamp checkInMessage,
                               avatarUrl = Some (githubAvatar user), snippet = randomSnippet\<rparr>;
                w1 = storeCheckIn (dateTime h) localUpdate w;
                w2 = w1\<lparr>lastCheckInTime := recordTime clk\<rparr>
            in (True, w2,
                [SocketSend (CheckInFrame messageToSend), SetTimeout (LocalEcho localUpdate) 500]
                @ startCooldownTimer (timerTime1 clk) (timerTime2 clk) w2))
         else
           (case simulateCheckInResponse h (stampTime clk) user tgs msg randomSnippet w of
              (ok, w1, es) \<Rightarrow>
                if ok then
                  (let w2 = w1\<lparr>lastCheckInTime := recordTime clk\<rparr>
                   in (True, w2, es @ startCooldownTimer (timerTime1 clk) (timerTime2 clk) w2))
                else (False, w1, es)))"

text \<open>A whole call, when nothing else runs between the call and its continuation.\<close>

definition sendCheckIn_run ::
  "host \<Rightarrow> real \<Rightarrow> int \<Rightarrow> clock \<Rightarrow> utf16 \<Rightarrow> utf16 list \<Rightarrow> utf16 \<Rightarrow> utf16 option
   \<Rightarrow> webSocketClient \<Rightarrow> bool \<times> webSocketClient \<times> effect list" where
  "sendCheckIn_run h random now clk user tgs msg tok w =
     (case sendCheckIn random now msg w of
        None \<Rightarrow> (False, w, [])
      | Some closure \<Rightarrow> sendCheckIn_then h clk user tgs msg closure tok w)"

subsection \<open>Connection\<close>

definition connect :: "webSocketClient \<Rightarrow> webSocketClient \<times> effect list" where
  "connect w =
     (case socket w of
        Some CONNECTING \<Rightarrow> (w, [ConsoleLog])
      | Some OPEN \<Rightarrow> (w, [ConsoleLog, FireConnectionStatusChanged True])
      | other \<Rightarrow>
          (let closing = (case other of
                            None \<Rightarrow> []
                          | Some st \<Rightarrow> if st \<noteq> CLOSED
                                        then [SocketRemoveAllListeners, SocketClose] else [])
           in (w\<lparr>socket := None, initialHistoryReceived := False,
                 receivingInitialHistory := True\<rparr>,
               closing @ [ConsoleLog, GetAuthToken])))"

text \<open>
  The continuation of \<open>connect\<close> on the token. \<open>throws\<close> tells whether the constructor of
  the socket throws; the timer set then, \<open>RetryTimer\<close>, runs \<open>connect\<close> again and leaves
  the interval as it is.
\<close>

definition connect_then ::
  "bool \<Rightarrow> utf16 option \<Rightarrow> webSocketClient \<Rightarrow> webSocketClient \<times> effect list" where
  "connect_then throws tok w =
     (if throws then
        (w, [ConsoleLog, ConsoleError, FireConnectionStatusChanged False]
            @ (if autoReconnect w then [SetTimeout RetryTimer (reconnectInterval w)] else []))
      else
        (w\<lparr>socket := Some CONNECTING, messageCount := 0, historyTimeout := False\<rparr>,
         [ConsoleLog, NewWebSocket tok, SetTimeout ConnectionTimeout 10000,
          SetTimeout HistoryCeiling 3000]))"

text \<open>\<open>String.prototype.includes\<close>\<close>

fun includesSeq :: "'a list \<Rightarrow> 'a list \<Rightarrow> bool" where
  "includesSeq [] needle = (needle = [])"
| "includesSeq (x # xs) needle =
     (take (length needle) (x # xs) = needle \<or> includesSeq xs needle)"

text \<open>\<open>code === 4000 || reason?.includes('auth')\<close>\<close>

definition isAuthClose :: "int \<Rightarrow> utf16 option \<Rightarrow> bool" where
  "isAuthClose code reason =
     (code = 4000 \<or> (case reason of None \<Rightarrow> False | Some r \<Rightarrow> includesSeq r (js ''auth'')))"

text \<open>The handlers the continuation installs on the socket.\<close>

definition onError :: "webSocketClient \<Rightarrow> webSocketClient \<times> effect list" where
  "onError w = (w, [ConsoleError, FireConnectionStatusChanged False])"

definition onClose :: "int \<Rightarrow> utf16 option \<Rightarrow> webSocketClient \<Rightarrow> webSocketClient \<times> effect list" where
  "onClose code reason w =
     (w, [ConsoleLog, FireConnectionStatusChanged False]
         @ (if isAuthClose code reason
            then [ShowErrorMessage (js ''Authentication failed. Please sign in to continue.'')]
            else if autoReconnect w
            then [ConsoleLog, SetTimeout ReconnectTimer (reconnectInterval w)]
            else []))"

text \<open>The callback of the timer that \<open>onClose\<close> sets.\<close>

definition onReconnectTimer :: "webSocketClient \<Rightarrow> webSocketClient \<times> effect list" where
  "onReconnectTimer w =
     connect (w\<lparr>reconnectInterval := min (reconnectInterval w * 1.5) 30000\<rparr>)"

definition onOpen :: "int \<Rightarrow> webSocketClient \<Rightarrow> webSocketClient \<times> effect list" where
  "onOpen now w =
     (w\<lparr>reconnectInterval := 5000, lastHistoryMessageTime := now\<rparr>,
      [ConsoleLog, ClearTimeout ConnectionTimeout, FireConnectionStatusChanged True])"

definition onMessage :: "host \<Rightarrow> int \<Rightarrow> utf16 \<Rightarrow> webSocketClient \<Rightarrow> webSocketClient \<times> effect list" where
  "onMessage h now data w =
     (case jsonParse h data of
        ParseThrows \<Rightarrow> (w, [ConsoleError])
      | NewCheckIn m \<Rightarrow>
          (let w1 = w\<lparr>messageCount := messageCount w + 1, lastHistoryMessageTime := now\<rparr>;
               w2 = storeCheckIn (dateTime h) m w1
           in if receivingInitialHistory w2
              then (w2\<lparr>historyTimeout := True\<rparr>,
                    (if historyTimeout w2 then [ClearTimeout HistoryIdle] else [])
                    @ [SetTimeout HistoryIdle 1000, FireMessageReceived m])
              else (w2, [FireMessageReceived m]))
      | OnlineUsers n \<Rightarrow> (w\<lparr>onlineUsersCount := n\<rparr>, [FireOnlineUsersChanged n])
      | ErrorNotice text \<Rightarrow>
          (w, [ConsoleError, ShowErrorMessage (js ''Server error: '' @ text)])
      | OtherValue \<Rightarrow> (w, []))"

text \<open>
  The transport's events on the socket that \<open>socket\<close> refers to: the library sets the
  \<open>readyState\<close>, then calls the handler.
\<close>

definition transportOpened :: "int \<Rightarrow> webSocketClient \<Rightarrow> webSocketClient \<times> effect list" where
  "transportOpened now w = onOpen now (w\<lparr>socket := map_option (\<lambda>_. OPEN) (socket w)\<rparr>)"

definition transportClosed ::
  "int \<Rightarrow> utf16 option \<Rightarrow> webSocketClient \<Rightarrow> webSocketClient \<times> effect list" where
  "transportClosed code reason w =
     onClose code reason (w\<lparr>socket := map_option (\<lambda>_. CLOSED) (socket w)\<rparr>)"

text \<open>The delay of the reconnect that a list of effects schedules, if any.\<close>

fun scheduledReconnect :: "effect list \<Rightarrow> real option" where
  "scheduledReconnect [] = None"
| "scheduledReconnect (SetTimeout ReconnectTimer d # es) = Some d"
| "scheduledReconnect (e # es) = scheduledReconnect es"

text \<open>
  Connection attempts that fail one after the other, none opening in between. Each
  element is the close event of the current socket (code, reason) and the token the
  next attempt obtains. The close handler may set the reconnect timer; when the timer
  fires \<open>connect\<close> runs and its continuation creates the next socket. The result lists
  the delays of the timers set, and stops where none is set.
\<close>

fun failedAttempts :: "(int \<times> utf16 option \<times> utf16 option) list \<Rightarrow> webSocketClient \<Rightarrow> real list" where
  "failedAttempts [] w = []"
| "failedAttempts ((code, reason, tok) # rest) w =
     (let (w1, es1) = transportClosed code reason w
      in case scheduledReconnect es1 of
           None \<Rightarrow> []
         | Some delay \<Rightarrow>
             (let (w2, es2) = onReconnectTimer w1;
                  w3 = (if GetAuthToken \<in> set es2 then fst (connect_then False tok w2) else w2)
              in delay # failedAttempts rest w3))"


section \<open>A date parser for the examples\<close>

text \<open>
  \<open>isoTime\<close> is one parser of the kind \<open>getTime\<close> stands for. On a string of the form that
  \<open>toISOString\<close> emits, \<open>YYYY-MM-DDTHH:mm:ss.sssZ\<close> with a date of the calendar and a time
  of the day, it gives the milliseconds since 1970-01-01T00:00:00.000Z; on every other
  string it gives \<open>None\<close>. The closed examples below use it.
\<close>

definition digitValue :: "16 word \<Rightarrow> nat option" where
  "digitValue u = (if 0x30 \<le> u \<and> u \<le> 0x39 then Some (unat u - 48) else None)"

fun digitsValue :: "nat \<Rightarrow> utf16 \<Rightarrow> nat option" where
  "digitsValue acc [] = Some acc"
| "digitsValue acc (u # us) =
     (case digitValue u of None \<Rightarrow> None | Some d \<Rightarrow> digitsValue (10 * acc + d) us)"

definition field :: "nat \<Rightarrow> nat \<Rightarrow> utf16 \<Rightarrow> nat option" where
  "field start len s = digitsValue 0 (take len (drop start s))"

definition leapYear :: "nat \<Rightarrow> bool" where
  "leapYear y = (y mod 4 = 0 \<and> (y mod 100 \<noteq> 0 \<or> y mod 400 = 0))"

definition daysInMonth :: "nat \<Rightarrow> nat \<Rightarrow> nat" where
  "daysInMonth y m =
     (if m = 2 then (if leapYear y then 29 else 28)
      else if m = 4 \<or> m = 6 \<or> m = 9 \<or> m = 11 then 30 else 31)"

text \<open>Days from 1970-01-01 to the given date of the proleptic Gregorian calendar.\<close>

definition daysFromCivil :: "nat \<Rightarrow> nat \<Rightarrow> nat \<Rightarrow> int" where
  "daysFromCivil y m d =
     (let y1 = (if m \<le> 2 then int y - 1 else int y);
          era = y1 div 400;
          yoe = y1 - era * 400;
          mp = (if m > 2 then int m - 3 else int m + 9);
          doy = (153 * mp + 2) div 5 + int d - 1;
          doe = yoe * 365 + yoe div 4 - yoe div 100 + doy
      in era * 146097 + doe - 719468)"

definition isoTime :: dateParse where
  "isoTime s =
     (if length s = 24 \<and> s ! 4 = 0x2D \<and> s ! 7 = 0x2D \<and> s ! 10 = 0x54 \<and> s ! 13 = 0x3A
         \<and> s ! 16 = 0x3A \<and> s ! 19 = 0x2E \<and> s ! 23 = 0x5A
      then
        (case (field 0 4 s, field 5 2 s, field 8 2 s, field 11 2 s, field 14 2 s,
               field 17 2 s, field 20 3 s) of
           (Some y, Some mo, Some d, Some h, Some mi, Some sec, Some ms) \<Rightarrow>
             if 1 \<le> mo \<and> mo \<le> 12 \<and> 1 \<le> d \<and> d \<le> daysInMonth y mo
                \<and> h \<le> 23 \<and> mi \<le> 59 \<and> sec \<le> 59
             then Some ((((daysFromCivil y mo d * 24 + int h) * 60 + int mi) * 60 + int sec) * 1000
                        + int ms)
             else None
         | _ \<Rightarrow> None)
      else None)"



section \<open>A host for the examples\<close>

text \<open>
  The theorems below hold for every host. The closed examples need one. \<open>exampleHost\<close>
  parses dates with \<open>isoTime\<close> and prints them with \<open>isoString\<close>, which is
  \<open>toISOString\<close> for the years 0000 to 9999. Its serialiser writes the object as
  \<open>JSON.stringify\<close> does when no string needs an escape. Its parser knows the payloads
  that the examples deliver and throws on every other. Its MAC is a stand-in (the key,
  a colon, the data): no statement about an example depends on the value of a signature.
\<close>

definition pad :: "nat \<Rightarrow> nat \<Rightarrow> utf16" where
  "pad width n = replicate (width - length (natDigits n)) 0x30 @ natDigits n"

definition civilFromDays :: "int \<Rightarrow> int \<times> int \<times> int" where
  "civilFromDays z =
     (let z1 = z + 719468;
          era = z1 div 146097;
          doe = z1 - era * 146097;
          yoe = (doe - doe div 1460 + doe div 36524 - doe div 146096) div 365;
          doy = doe - (365 * yoe + yoe div 4 - yoe div 100);
          mp = (5 * doy + 2) div 153;
          d = doy - (153 * mp + 2) div 5 + 1;
          m = (if mp < 10 then mp + 3 else mp - 9);
          y = yoe + era * 400 + (if m \<le> 2 then 1 else 0)
      in (y, m, d))"

definition isoString :: "int \<Rightarrow> utf16" where
  "isoString t =
     (let ms = nat (t mod 86400000)
      in case civilFromDays (t div 86400000) of
           (y, m, d) \<Rightarrow>
             pad 4 (nat y) @ js ''-'' @ pad 2 (nat m) @ js ''-'' @ pad 2 (nat d) @ js ''T''
             @ pad 2 (ms div 3600000) @ js '':'' @ pad 2 (ms div 60000 mod 60) @ js '':''
             @ pad 2 (ms div 1000 mod 60) @ js ''.'' @ pad 3 (ms mod 1000) @ js ''Z'')"

definition quoted :: "utf16 \<Rightarrow> utf16" where
  "quoted s = 0x22 # s @ [0x22]"

fun commaSeparated :: "utf16 list \<Rightarrow> utf16" where
  "commaSeparated [] = []"
| "commaSeparated [x] = x"
| "commaSeparated (x # y # ys) = x @ 0x2C # commaSeparated (y # ys)"

definition member :: "string \<Rightarrow> utf16 option \<Rightarrow> utf16 list" where
  "member key val = (case val of None \<Rightarrow> [] | Some s \<Rightarrow> [quoted (js key) @ 0x3A # quoted s])"

fun exampleStringify :: "cleanMessage \<Rightarrow> utf16" where
  "exampleStringify (CleanMessage ty user tgs msg stamp avatar snip) =
     0x7B # commaSeparated
       (member ''type'' (Some ty) @ member ''username'' (Some user)
        @ [quoted (js ''tags'') @ 0x3A # 0x5B # commaSeparated (map quoted tgs) @ [0x5D]]
        @ member ''message'' (Some msg) @ member ''timestamp'' (Some stamp)
        @ member ''avatarUrl'' avatar @ member ''snippet'' snip)
     @ [0x7D]"

definition onlineUsersPayload :: utf16 where
  "onlineUsersPayload =
     0x7B # quoted (js ''type'') @ 0x3A # quoted (js ''online_users'') @ 0x2C
     # quoted (js ''count'') @ 0x3A # js ''7'' @ [0x7D]"

definition pongPayload :: utf16 where
  "pongPayload = 0x7B # quoted (js ''type'') @ 0x3A # quoted (js ''pong'') @ [0x7D]"

definition exampleParse :: "utf16 \<Rightarrow> inbound" where
  "exampleParse data =
     (if data = onlineUsersPayload then OnlineUsers 7
      else if data = pongPayload then OtherValue
      else ParseThrows)"

definition exampleHost :: host where
  "exampleHost =
     \<lparr>dateTime = isoTime, toISOString = isoString, jsonStringify = exampleStringify,
      jsonParse = exampleParse, hmacSha256Hex = (\<lambda>key data. key @ 0x3A # data),
      signingSecret = js ''secret''\<rparr>"

text \<open>A check-in of the examples, and \<open>n\<close> check-ins of the usernames \<open>u\<close>, \<open>uu\<close>, \<open>uuu\<close>, ...\<close>

definition entry :: "string \<Rightarrow> string \<Rightarrow> string \<Rightarrow> checkIn" where
  "entry user text stamp =
     \<lparr>username = js user, tags = [], message = js text, timestamp = js stamp,
      avatarUrl = None, snippet = None\<rparr>"

definition crowd :: "nat \<Rightarrow> checkIn list" where
  "crowd n =
     map (\<lambda>i. \<lparr>username = replicate (Suc i) 0x75, tags = [], message = [],
                timestamp = js ''2024-01-01T00:00:00.000Z'', avatarUrl = None,
                snippet = None\<rparr>) [0..<n]"

definition emptyView :: secondaryCheckInView where
  "emptyView =
     \<lparr>view = None, checkIns = [], webviewReady = False, pendingCheckIns = [],
      onlineUsersCount = 0, newCheckInsCount = 0\<rparr>"


section \<open>Notions used in the statements\<close>

text \<open>The first entry of a username in a buffer, and the instant of an entry whose
  timestamp is a date.\<close>

definition entryOf :: "utf16 \<Rightarrow> checkIn list \<Rightarrow> checkIn option" where
  "entryOf u xs = find (\<lambda>x. username x = u) xs"

definition timeOf :: "dateParse \<Rightarrow> checkIn \<Rightarrow> int" where
  "timeOf getTime c = the (getTime (timestamp c))"

text \<open>Of a retained entry and an arriving one, the one that the buffers keep.\<close>

definition newer :: "dateParse \<Rightarrow> checkIn \<Rightarrow> checkIn \<Rightarrow> checkIn" where
  "newer getTime e c =
     (if jsGreater (getTime (timestamp c)) (getTime (timestamp e)) then c else e)"

text \<open>\<open>storeInto\<close> by recursion over the buffer; the two are shown equal below.\<close>

fun upsert :: "dateParse \<Rightarrow> checkIn \<Rightarrow> checkIn list \<Rightarrow> checkIn list" where
  "upsert getTime c [] = [c]"
| "upsert getTime c (x # xs) =
     (if username x = username c then newer getTime x c # xs
      else x # upsert getTime c xs)"

text \<open>The contents of the view's buffer after \<open>addCheckIn\<close>, shown below.\<close>

definition viewInto :: "dateParse \<Rightarrow> checkIn list \<Rightarrow> checkIn \<Rightarrow> checkIn list" where
  "viewInto getTime xs c =
     (if entryOf (username c) xs = None then take 100 (xs @ [c]) else upsert getTime c xs)"




section \<open>The buffers keep the latest check-in of each username\<close>

subsection \<open>The client's buffer as a recursion\<close>

lemma findIndex_None_iff: "findIndex p xs = None \<longleftrightarrow> (\<forall>x\<in>set xs. \<not> p x)"
  by (induction xs) auto

lemma findIndex_SomeD:
  "findIndex p xs = Some i \<Longrightarrow> i < length xs \<and> p (xs ! i) \<and> (\<forall>j<i. \<not> p (xs ! j))"
proof (induction xs arbitrary: i)
  case Nil
  then show ?case by simp
next
  case (Cons x xs)
  show ?case
  proof (cases "p x")
    case True
    with Cons.prems show ?thesis by simp
  next
    case False
    with Cons.prems obtain k where k: "findIndex p xs = Some k" "i = Suc k"
      by auto
    from Cons.IH [OF k(1)] False k(2) show ?thesis
      by (auto simp: nth_Cons split: nat.splits)
  qed
qed

lemma storeInto_upsert: "storeInto g xs c = upsert g c xs"
proof (induction xs)
  case Nil
  show ?case by (simp add: storeInto_def)
next
  case (Cons x xs)
  show ?case
  proof (cases "username x = username c")
    case True
    then show ?thesis by (simp add: storeInto_def newer_def)
  next
    case False
    with Cons.IH show ?thesis
      by (auto simp: storeInto_def Let_def split: option.splits)
  qed
qed

lemma entryOf_None_iff: "entryOf u xs = None \<longleftrightarrow> u \<notin> username ` set xs"
  by (auto simp: entryOf_def find_None_iff)

lemma newer_username: "username e = username c \<Longrightarrow> username (newer g e c) = username c"
  by (simp add: newer_def)

lemma usernames_upsert:
  "map username (upsert g c xs) =
     (if entryOf (username c) xs = None then map username xs @ [username c] else map username xs)"
  by (induction xs) (auto simp: entryOf_def newer_def)

lemma length_upsert:
  "length (upsert g c xs) = (if entryOf (username c) xs = None then Suc (length xs) else length xs)"
  using usernames_upsert [of g c xs] by (metis length_map length_append_singleton)


lemma entryOf_upsert_same:
  "entryOf (username c) (upsert g c xs) =
     (case entryOf (username c) xs of None \<Rightarrow> Some c | Some e \<Rightarrow> Some (newer g e c))"
  by (induction xs) (auto simp: entryOf_def newer_def)

lemma entryOf_upsert_other:
  "username c \<noteq> u \<Longrightarrow> entryOf u (upsert g c xs) = entryOf u xs"
  by (induction xs) (auto simp: entryOf_def newer_def)



subsection \<open>A run of check-ins of one username\<close>





lemma allReceived_storeCheckIns:
  "allReceivedCheckIns (storeCheckIns g cs w) = foldl (\<lambda>xs c. upsert g c xs) (allReceivedCheckIns w) cs"
  by (induction cs arbitrary: w) (simp_all add: storeCheckIn_def storeInto_upsert)






subsection \<open>The view's buffer\<close>

lemma updateView_checkIns: "checkIns (fst (updateView g v)) = checkIns v"
  by (simp add: updateView_def Let_def)

lemma afterChange_checkIns: "checkIns (fst (afterChange g c v)) = checkIns v"
  unfolding afterChange_def Let_def fst_conv
  apply (cases "isVisible v"; cases "webviewReady v")
     apply (simp_all only: if_True if_False not_True_eq_False not_False_eq_True updateView_checkIns)
  apply (simp_all add: updateView_checkIns)
  done

lemma findIndex_entryOf:
  "(findIndex (\<lambda>x. username x = u) xs = None) = (entryOf u xs = None)"
  by (auto simp: findIndex_None_iff entryOf_None_iff)

lemma addCheckIn_checkIns:
  "checkIns (fst (addCheckIn g c v)) = viewInto g (checkIns v) c"
proof (cases "findIndex (\<lambda>x. username x = username c) (checkIns v)")
  case None
  then have "entryOf (username c) (checkIns v) = None" by (simp add: findIndex_entryOf)
  with None show ?thesis
    by (simp add: addCheckIn_def viewInto_def Let_def afterChange_checkIns)
next
  case (Some i)
  then have present: "entryOf (username c) (checkIns v) \<noteq> None"
    using findIndex_entryOf [of "username c" "checkIns v"] by simp
  have "upsert g c (checkIns v) = storeInto g (checkIns v) c" by (simp add: storeInto_upsert)
  also have "\<dots> = checkIns (fst (addCheckIn g c v))"
    using Some by (simp add: storeInto_def addCheckIn_def Let_def afterChange_checkIns)
  finally show ?thesis using present
    by (cases "entryOf (username c) (checkIns v)") (simp_all add: viewInto_def)
qed

lemma checkIns_addCheckIns:
  "checkIns (addCheckIns g cs v) = foldl (viewInto g) (checkIns v) cs"
  by (induction cs arbitrary: v) (simp_all add: addCheckIn_checkIns)

lemma entryOf_append_absent:
  "entryOf u xs = None \<Longrightarrow> entryOf u (xs @ [c]) = (if username c = u then Some c else None)"
  by (induction xs) (auto simp: entryOf_def)

lemma entryOf_take_absent: "entryOf u xs = None \<Longrightarrow> entryOf u (take n xs) = None"
  by (auto simp: entryOf_None_iff dest: in_set_takeD)

lemma entryOf_viewInto_same:
  "entryOf (username c) (viewInto g xs c) =
     (case entryOf (username c) xs of
        Some e \<Rightarrow> Some (newer g e c)
      | None \<Rightarrow> if length xs < 100 then Some c else None)"
proof (cases "entryOf (username c) xs")
  case None
  show ?thesis
  proof (cases "length xs < 100")
    case True
    with None show ?thesis by (simp add: viewInto_def entryOf_append_absent)
  next
    case False
    then have "take 100 (xs @ [c]) = take 100 xs" by simp
    with None False show ?thesis by (simp add: viewInto_def entryOf_take_absent)
  qed
next
  case (Some e)
  then show ?thesis using entryOf_upsert_same [of c g xs] by (simp add: viewInto_def)
qed

lemma length_viewInto_full:
  "entryOf (username c) xs = None \<Longrightarrow> 100 \<le> length xs \<Longrightarrow> length (viewInto g xs c) = 100"
  by (simp add: viewInto_def)

lemma entryOf_viewIntos:
  "\<forall>c\<in>set cs. username c = u
   \<Longrightarrow> entryOf u (foldl (viewInto g) xs cs) =
       (case entryOf u xs of
          Some e \<Rightarrow> Some (foldl (newer g) e cs)
        | None \<Rightarrow> if length xs < 100
                  then (case cs of [] \<Rightarrow> None | c # rest \<Rightarrow> Some (foldl (newer g) c rest))
                  else None)"
proof (induction cs arbitrary: xs)
  case Nil
  show ?case by (simp split: option.splits)
next
  case (Cons c cs)
  then have c: "username c = u" and rest: "\<forall>c\<in>set cs. username c = u" by simp_all
  note step = entryOf_viewInto_same [of c g xs, unfolded c]
  note ih = Cons.IH [OF rest, of "viewInto g xs c"]
  show ?case
  proof (cases "entryOf u xs")
    case (Some e)
    with step ih show ?thesis by simp
  next
    case None
    show ?thesis
    proof (cases "length xs < 100")
      case True
      with None step ih show ?thesis by simp
    next
      case False
      with None c have "length (viewInto g xs c) = 100"
        using length_viewInto_full [of c xs g] by simp
      with None False step ih show ?thesis by simp
    qed
  qed
qed





lemma view_full_drops:
  assumes same: "\<forall>c\<in>set msgs. username c = u"
    and full: "entryOf u (checkIns v) = None" "100 \<le> length (checkIns v)"
  shows "entryOf u (checkIns (addCheckIns g msgs v)) = None"
  using entryOf_viewIntos [OF same, of g "checkIns v", folded checkIns_addCheckIns] full
  by simp




subsection \<open>Arrival order, and messages that are not newer\<close>










subsection \<open>The claim\<close>





section \<open>Cooldown gate\<close>

text \<open>
  C10. At every clock reading and for every last check-in time, \<open>canCheckIn\<close> answers
  true exactly when \<open>getRemainingCooldownTime\<close> answers \<open>0\<close>. A freshly constructed
  client has \<open>lastCheckInTime = 0\<close>, so it may check in as soon as the clock (milliseconds
  since 1970) reads at least one cooldown period.
\<close>

theorem canCheckIn_iff_no_remaining:
  "(canCheckIn now w \<longleftrightarrow> getRemainingCooldownTime now w = 0)
   \<and> lastCheckInTime (newClient minutes) = 0
   \<and> (cooldownPeriodMs (newClient minutes) \<le> real_of_int t
        \<longrightarrow> canCheckIn t (newClient minutes))"
proof -
  have "canCheckIn now w \<longleftrightarrow> getRemainingCooldownTime now w = 0"
    by (auto simp: canCheckIn_def getRemainingCooldownTime_def Let_def)
  moreover have "lastCheckInTime (newClient minutes) = 0"
    by (simp add: newClient_def)
  moreover have "cooldownPeriodMs (newClient minutes) \<le> real_of_int t
        \<longrightarrow> canCheckIn t (newClient minutes)"
    by (simp add: canCheckIn_def newClient_def)
  ultimately show ?thesis by blast
qed

theorem canCheckIn_iff_no_remaining_witness:
  "cooldownPeriodMs (newClient 10) \<le> real_of_int 1700000000000
   \<and> canCheckIn 1700000000000 (newClient 10)
   \<and> getRemainingCooldownTime 1700000000000 (newClient 10) = 0"
proof -
  have period: "cooldownPeriodMs (newClient 10) \<le> real_of_int 1700000000000"
    by (simp add: newClient_def)
  from canCheckIn_iff_no_remaining [of 1700000000000 "newClient 10" 10 1700000000000] period
  show ?thesis by blast
qed

lemma storeCheckIn_fields [simp]:
  "lastCheckInTime (storeCheckIn g c w) = lastCheckInTime w"
  "cooldownPeriodMs (storeCheckIn g c w) = cooldownPeriodMs w"
  "socket (storeCheckIn g c w) = socket w"
  "onlineUsersCount (storeCheckIn g c w) = onlineUsersCount w"
  "reconnectInterval (storeCheckIn g c w) = reconnectInterval w"
  by (simp_all add: storeCheckIn_def)

lemma sendCheckIn_run_result:
  assumes "sendCheckIn_run h random now clk user tgs msg tok w = (ok, w', es)"
  shows "ok = canCheckIn now w"
    and "ok \<Longrightarrow> lastCheckInTime w' = recordTime clk"
    and "cooldownPeriodMs w' = cooldownPeriodMs w"
  using assms
  by (auto simp: sendCheckIn_run_def sendCheckIn_def sendCheckIn_then_def
      simulateCheckInResponse_def Let_def split: if_splits)

lemma onMessage_lastCheckInTime:
  "lastCheckInTime (fst (onMessage h t data w)) = lastCheckInTime w"
  by (simp add: onMessage_def Let_def split: inbound.splits)

text \<open>
  C4. \<open>canCheckIn\<close> compares the time since \<open>lastCheckInTime\<close> with the cooldown period.
  A call of \<open>sendCheckIn\<close> succeeds exactly when \<open>canCheckIn\<close> holds at the call, whether
  the socket is open or not and whatever the token. For a positive cooldown period a
  successful call sets \<open>lastCheckInTime\<close> to the instant \<open>recordTime\<close> it reads after
  sending; at that instant \<open>canCheckIn\<close> is false and the remaining time is the whole
  period, and from then on \<open>canCheckIn\<close> holds exactly once the period has elapsed. No
  inbound message changes \<open>lastCheckInTime\<close>, so none of this waits for the relay.
\<close>

theorem cooldown_after_submission:
  assumes positive: "0 < cooldownPeriodMs w"
    and run: "sendCheckIn_run h random now clk user tgs msg tok w = (ok, w', es)"
  shows
    "(canCheckIn now w \<longleftrightarrow> cooldownPeriodMs w \<le> real_of_int (now - lastCheckInTime w))
     \<and> (ok \<longleftrightarrow> canCheckIn now w)
     \<and> (ok \<longrightarrow> lastCheckInTime w' = recordTime clk
              \<and> \<not> canCheckIn (recordTime clk) w'
              \<and> getRemainingCooldownTime (recordTime clk) w' = cooldownPeriodMs w
              \<and> (canCheckIn t w' \<longleftrightarrow> cooldownPeriodMs w \<le> real_of_int (t - recordTime clk))
              \<and> lastCheckInTime (fst (onMessage h t data w')) = recordTime clk)"
proof -
  note r = sendCheckIn_run_result [OF run]
  have a: "canCheckIn now w \<longleftrightarrow> cooldownPeriodMs w \<le> real_of_int (now - lastCheckInTime w)"
    by (simp add: canCheckIn_def)
  have b: "ok \<longleftrightarrow> canCheckIn now w" by (rule r(1))
  have c: "lastCheckInTime w' = recordTime clk" if ok using r(2) that by simp
  have d: "\<not> canCheckIn (recordTime clk) w'" if ok
    using c [OF that] r(3) positive by (simp add: canCheckIn_def)
  have e: "getRemainingCooldownTime (recordTime clk) w' = cooldownPeriodMs w" if ok
    using c [OF that] r(3) positive by (simp add: getRemainingCooldownTime_def)
  have f: "canCheckIn t w' \<longleftrightarrow> cooldownPeriodMs w \<le> real_of_int (t - recordTime clk)" if ok
    using c [OF that] r(3) by (simp add: canCheckIn_def)
  have g: "lastCheckInTime (fst (onMessage h t data w')) = recordTime clk" if ok
    using c [OF that] by (simp add: onMessage_lastCheckInTime)
  from a b c d e f g show ?thesis by blast
qed

theorem cooldown_after_submission_witness:
  "fst (sendCheckIn_run exampleHost 0 1700000000000
          \<lparr>stampTime = 1700000000200, signTime = 1700000000200, recordTime = 1700000000201,
           timerTime1 = 1700000000201, timerTime2 = 1700000000201\<rparr>
          (js ''zed'') [js ''python''] (js ''debugging'') None
          ((newClient 10)\<lparr>socket := Some OPEN\<rparr>))
   \<and> \<not> canCheckIn 1700000000201
        (fst (snd (sendCheckIn_run exampleHost 0 1700000000000
          \<lparr>stampTime = 1700000000200, signTime = 1700000000200, recordTime = 1700000000201,
           timerTime1 = 1700000000201, timerTime2 = 1700000000201\<rparr>
          (js ''zed'') [js ''python''] (js ''debugging'') None
          ((newClient 10)\<lparr>socket := Some OPEN\<rparr>))))
   \<and> getRemainingCooldownTime 1700000000201
        (fst (snd (sendCheckIn_run exampleHost 0 1700000000000
          \<lparr>stampTime = 1700000000200, signTime = 1700000000200, recordTime = 1700000000201,
           timerTime1 = 1700000000201, timerTime2 = 1700000000201\<rparr>
          (js ''zed'') [js ''python''] (js ''debugging'') None
          ((newClient 10)\<lparr>socket := Some OPEN\<rparr>)))) = 600000"
proof -
  let ?w = "(newClient 10)\<lparr>socket := Some OPEN\<rparr>"
  let ?clk = "\<lparr>stampTime = 1700000000200, signTime = 1700000000200, recordTime = 1700000000201,
           timerTime1 = 1700000000201, timerTime2 = 1700000000201\<rparr>"
  let ?r = "sendCheckIn_run exampleHost 0 1700000000000 ?clk
          (js ''zed'') [js ''python''] (js ''debugging'') None ?w"
  have positive: "0 < cooldownPeriodMs ?w" by (simp add: newClient_def)
  have period: "cooldownPeriodMs ?w = 600000" by (simp add: newClient_def)
  have gate: "canCheckIn 1700000000000 ?w" by (simp add: canCheckIn_def newClient_def)
  have run: "?r = (fst ?r, fst (snd ?r), snd (snd ?r))" by simp
  from cooldown_after_submission [OF positive run] gate period
  show ?thesis by simp
qed

section \<open>Capacity\<close>

lemma upsert_absent: "entryOf (username c) xs = None \<Longrightarrow> upsert g c xs = xs @ [c]"
  by (induction xs) (auto simp: entryOf_def split: if_splits)

lemma storeCheckIn_appends:
  "entryOf (username c) (allReceivedCheckIns w) = None
   \<Longrightarrow> allReceivedCheckIns (storeCheckIn g c w) = allReceivedCheckIns w @ [c]"
  by (simp add: storeCheckIn_def storeInto_upsert upsert_absent)

lemma upserts_fresh:
  "distinct (map username cs) \<Longrightarrow> username ` set cs \<inter> username ` set xs = {}
   \<Longrightarrow> foldl (\<lambda>xs c. upsert g c xs) xs cs = xs @ cs"
proof (induction cs arbitrary: xs)
  case Nil
  show ?case by simp
next
  case (Cons c cs)
  from Cons.prems have absent: "entryOf (username c) xs = None"
    by (auto simp: entryOf_None_iff)
  from Cons.prems have "username ` set cs \<inter> username ` set (xs @ [c]) = {}" by auto
  with Cons.IH [of "xs @ [c]"] Cons.prems show ?case
    by (simp add: upsert_absent [OF absent])
qed

lemma storeCheckIns_fresh:
  "distinct (map username cs)
   \<Longrightarrow> allReceivedCheckIns (storeCheckIns g cs (w\<lparr>allReceivedCheckIns := []\<rparr>)) = cs"
  using upserts_fresh [of cs "[]" g] by (simp add: allReceived_storeCheckIns)

lemma take_take_append: "take n (take n xs @ ys) = take n (xs @ ys)"
  by (simp add: min_def)

lemma viewIntos_fresh:
  "distinct (map username cs) \<Longrightarrow> username ` set cs \<inter> username ` set xs = {}
   \<Longrightarrow> length xs \<le> 100
   \<Longrightarrow> foldl (viewInto g) xs cs = take 100 (xs @ cs)"
proof (induction cs arbitrary: xs)
  case Nil
  then show ?case by simp
next
  case (Cons c cs)
  from Cons.prems have absent: "entryOf (username c) xs = None"
    by (auto simp: entryOf_None_iff)
  then have step: "viewInto g xs c = take 100 (xs @ [c])" by (simp add: viewInto_def)
  have sub: "set (take 100 (xs @ [c])) \<subseteq> set (xs @ [c])" by (rule set_take_subset)
  have "username ` set cs \<inter> username ` set (xs @ [c]) = {}" using Cons.prems by auto
  with sub have disj: "username ` set cs \<inter> username ` set (take 100 (xs @ [c])) = {}"
    by blast
  have d: "distinct (map username cs)" using Cons.prems by simp
  have "foldl (viewInto g) (take 100 (xs @ [c])) cs = take 100 (take 100 (xs @ [c]) @ cs)"
    by (rule Cons.IH [OF d disj]) simp
  then show ?case by (simp only: foldl_Cons step take_take_append append_assoc append_Cons append_Nil)
qed

lemma addCheckIns_fresh:
  "distinct (map username cs)
   \<Longrightarrow> checkIns (addCheckIns g cs (v\<lparr>checkIns := []\<rparr>)) = take 100 cs"
  using viewIntos_fresh [of cs "[]" g] by (simp add: checkIns_addCheckIns)

lemma addCheckIn_bound:
  "length (checkIns v) \<le> 100 \<Longrightarrow> length (checkIns (fst (addCheckIn g c v))) \<le> 100"
  by (auto simp: addCheckIn_checkIns viewInto_def length_upsert min_def)

lemma addCheckIn_full:
  "length (checkIns v) = 100 \<Longrightarrow> entryOf (username c) (checkIns v) = None
   \<Longrightarrow> length (checkIns (fst (addCheckIn g c v))) = 100"
  by (simp add: addCheckIn_checkIns viewInto_def)

lemma crowd_usernames: "map username (crowd n) = map (\<lambda>i. replicate (Suc i) 0x75) [0..<n]"
  by (simp add: crowd_def comp_def)

lemma crowd_distinct: "distinct (map username (crowd n))"
proof -
  have "inj_on (\<lambda>i. replicate (Suc i) (0x75 :: 16 word)) (set [0..<n])"
  proof (rule inj_onI)
    fix i j
    assume "replicate (Suc i) (0x75 :: 16 word) = replicate (Suc j) 0x75"
    then have "length (replicate (Suc i) (0x75 :: 16 word)) = length (replicate (Suc j) (0x75 :: 16 word))"
      by simp
    then show "i = j" by simp
  qed
  then show ?thesis by (simp add: crowd_usernames distinct_map)
qed

lemma crowd_length: "length (crowd n) = n"
  by (simp add: crowd_def)

lemma zed_not_in_crowd: "entryOf (js ''zed'') (crowd n) = None"
proof -
  have "js ''zed'' \<notin> set (map username (crowd n))"
    unfolding crowd_usernames by (auto simp: js_def)
  then show ?thesis by (simp add: entryOf_None_iff)
qed

text \<open>
  C2, as the code has it. The client's buffer has no capacity: \<open>storeCheckIn\<close> appends
  the check-in of a username not yet present, whatever the size, so that \<open>N\<close> distinct
  usernames stored into an empty buffer are all retained, in arrival order. The view's
  buffer holds at most 100 entries: \<open>addCheckIn\<close> keeps a buffer of at most 100 entries
  within 100, leaves a buffer of exactly 100 entries at 100 when the username is not
  present, and after more than 100 distinct usernames, added to an empty view, the
  view holds 100 entries.
\<close>

theorem capacity_of_buffers:
  "(entryOf (username c) (allReceivedCheckIns w) = None
      \<longrightarrow> allReceivedCheckIns (storeCheckIn g c w) = allReceivedCheckIns w @ [c])
   \<and> (distinct (map username cs)
      \<longrightarrow> allReceivedCheckIns (storeCheckIns g cs (w\<lparr>allReceivedCheckIns := []\<rparr>)) = cs)
   \<and> (length (checkIns v) \<le> 100 \<longrightarrow> length (checkIns (fst (addCheckIn g c v))) \<le> 100)
   \<and> (length (checkIns v) = 100 \<and> entryOf (username c) (checkIns v) = None
      \<longrightarrow> length (checkIns (fst (addCheckIn g c v))) = 100)
   \<and> (distinct (map username cs) \<and> 100 < length cs
      \<longrightarrow> length (checkIns (addCheckIns g cs (v\<lparr>checkIns := []\<rparr>))) = 100)"
proof -
  have "length (checkIns (addCheckIns g cs (v\<lparr>checkIns := []\<rparr>))) = 100"
    if "distinct (map username cs)" "100 < length cs"
    using that by (simp add: addCheckIns_fresh)
  then show ?thesis
    using storeCheckIn_appends storeCheckIns_fresh addCheckIn_bound addCheckIn_full by blast
qed

theorem capacity_of_buffers_witness:
  "allReceivedCheckIns (storeCheckIns isoTime (crowd 101) (newClient 10)) = crowd 101
   \<and> length (checkIns (addCheckIns isoTime (crowd 101) emptyView)) = 100
   \<and> length (checkIns (fst (addCheckIn isoTime (entry ''zed'' ''hi'' ''2024-06-01T00:00:00.000Z'')
                 (emptyView\<lparr>checkIns := crowd 100\<rparr>)))) = 100"
proof -
  let ?zed = "entry ''zed'' ''hi'' ''2024-06-01T00:00:00.000Z''"
  let ?full = "emptyView\<lparr>checkIns := crowd 100\<rparr>"
  have w0: "(newClient 10)\<lparr>allReceivedCheckIns := []\<rparr> = newClient 10"
    by (simp add: newClient_def)
  have v0: "emptyView\<lparr>checkIns := []\<rparr> = emptyView" by (simp add: emptyView_def)
  have d: "distinct (map username (crowd 101))" by (rule crowd_distinct)
  have n: "100 < length (crowd 101)" by (simp add: crowd_length)
  have full: "length (checkIns ?full) = 100" by (simp add: crowd_length)
  have absent: "entryOf (username ?zed) (checkIns ?full) = None"
    using zed_not_in_crowd [of 100] by (simp add: entry_def)
  from capacity_of_buffers [of ?zed "newClient 10" isoTime "crowd 101" emptyView] d n
  have "allReceivedCheckIns (storeCheckIns isoTime (crowd 101) (newClient 10)) = crowd 101"
    and "length (checkIns (addCheckIns isoTime (crowd 101) emptyView)) = 100"
    unfolding w0 v0 by blast+
  moreover from capacity_of_buffers [of ?zed "newClient 10" isoTime "crowd 101" ?full] full absent
  have "length (checkIns (fst (addCheckIn isoTime ?zed ?full))) = 100" by blast
  ultimately show ?thesis by blast
qed

text \<open>
  The claim as stated fails on the client's buffer: holding 100 usernames, it grows
  to 101 entries when a further username checks in.
\<close>

theorem capacity_counterexample:
  "length (allReceivedCheckIns (storeCheckIns isoTime (crowd 100) (newClient 10))) = 100
   \<and> entryOf (js ''zed'')
        (allReceivedCheckIns (storeCheckIns isoTime (crowd 100) (newClient 10))) = None
   \<and> length (allReceivedCheckIns
        (storeCheckIn isoTime (entry ''zed'' ''hi'' ''2024-06-01T00:00:00.000Z'')
           (storeCheckIns isoTime (crowd 100) (newClient 10)))) = 101"
proof -
  have w0: "(newClient 10)\<lparr>allReceivedCheckIns := []\<rparr> = newClient 10"
    by (simp add: newClient_def)
  have held: "allReceivedCheckIns (storeCheckIns isoTime (crowd 100) (newClient 10)) = crowd 100"
    using storeCheckIns_fresh [where cs = "crowd 100" and g = isoTime and w = "newClient 10",
        OF crowd_distinct]
    unfolding w0 .
  have absent: "entryOf (username (entry ''zed'' ''hi'' ''2024-06-01T00:00:00.000Z''))
      (allReceivedCheckIns (storeCheckIns isoTime (crowd 100) (newClient 10))) = None"
    unfolding held using zed_not_in_crowd [of 100] by (simp add: entry_def)
  show ?thesis
    using storeCheckIn_appends [OF absent] zed_not_in_crowd [of 100]
    by (simp add: held crowd_length)
qed

section \<open>Snapshots\<close>

lemma mset_insertBy: "mset (insertBy cmp x ys) = add_mset x (mset ys)"
  by (induction ys) simp_all

lemma mset_sortBy: "mset (sortBy cmp xs) = mset xs"
  by (induction xs) (simp_all add: sortBy_def mset_insertBy)

lemma set_insertBy: "set (insertBy cmp x ys) = insert x (set ys)"
  using mset_insertBy [of cmp x ys] by (metis set_mset_add_mset_insert set_mset_mset)

lemma newestFirst_dates:
  "g (timestamp a) \<noteq> None \<Longrightarrow> g (timestamp b) \<noteq> None
   \<Longrightarrow> newestFirst g a b = timeOf g b - timeOf g a"
  by (auto simp: newestFirst_def timeOf_def)

lemma sorted_insertBy:
  assumes x: "g (timestamp x) \<noteq> None"
    and ys: "\<forall>y\<in>set ys. g (timestamp y) \<noteq> None"
    and sorted: "sorted_wrt (\<lambda>a b. timeOf g b \<le> timeOf g a) ys"
  shows "sorted_wrt (\<lambda>a b. timeOf g b \<le> timeOf g a) (insertBy (newestFirst g) x ys)"
  using ys sorted
proof (induction ys)
  case Nil
  show ?case by simp
next
  case (Cons y ys)
  have y: "g (timestamp y) \<noteq> None" using Cons.prems(1) by simp
  note cmp = newestFirst_dates [OF x y]
  show ?case
  proof (cases "timeOf g y \<le> timeOf g x")
    case True
    with Cons.prems(2) have "\<forall>z\<in>set (y # ys). timeOf g z \<le> timeOf g x" by auto
    with True Cons.prems(2) show ?thesis by (simp add: cmp)
  next
    case False
    have "sorted_wrt (\<lambda>a b. timeOf g b \<le> timeOf g a) (insertBy (newestFirst g) x ys)"
      using Cons.IH Cons.prems by simp
    moreover have "\<forall>z\<in>set (insertBy (newestFirst g) x ys). timeOf g z \<le> timeOf g y"
      using False Cons.prems(2) by (auto simp: set_insertBy)
    ultimately show ?thesis using False by (simp add: cmp)
  qed
qed

lemma sorted_sortBy:
  "\<forall>c\<in>set xs. g (timestamp c) \<noteq> None
   \<Longrightarrow> sorted_wrt (\<lambda>a b. timeOf g b \<le> timeOf g a) (sortBy (newestFirst g) xs)"
proof (induction xs)
  case Nil
  show ?case by (simp add: sortBy_def)
next
  case (Cons x xs)
  have rest: "\<forall>y\<in>set (sortBy (newestFirst g) xs). g (timestamp y) \<noteq> None"
    using Cons.prems mset_sortBy [of "newestFirst g" xs] by (metis list.set_intros(2) set_mset_mset)
  have "sorted_wrt (\<lambda>a b. timeOf g b \<le> timeOf g a)
          (insertBy (newestFirst g) x (sortBy (newestFirst g) xs))"
    using Cons by (intro sorted_insertBy rest) simp_all
  then show ?case by (simp add: sortBy_def)
qed

lemma getAllCheckIns_copy:
  assumes "received < length st"
  shows "fst (getAllCheckIns st received) ! snd (getAllCheckIns st received) = st ! received"
    and "snd (getAllCheckIns st received) \<noteq> received"
    and "\<forall>i<length st. fst (getAllCheckIns st received) ! i = st ! i"
    and "\<forall>xs. writeArray (fst (getAllCheckIns st received)) (snd (getAllCheckIns st received)) xs
              ! received = st ! received"
  using assms by (simp_all add: getAllCheckIns_def spread_def writeArray_def nth_append)

lemma updateView_posts:
  "view v \<noteq> None \<Longrightarrow> webviewReady v
   \<Longrightarrow> snd (updateView g v) =
       PostUpdateCheckIns (sortBy (newestFirst g) (checkIns v)) # updateOnlineUsersCount v"
  by (simp add: updateView_def)

text \<open>
  C3, as the code has it. \<open>getAllCheckIns\<close> returns a new array that holds all retained
  entries in the order of the buffer, which is the order in which the usernames first
  arrived; it does not sort. The call leaves every array of the store as it was, and a
  later write to the array returned leaves the buffer as it was. The list that
  \<open>updateView\<close> sends, when the view is present and ready and the timestamps are dates,
  holds the entries of the view's buffer, ordered by instant, latest first;
  \<open>updateView\<close> leaves the view's buffer as it was.
\<close>

theorem snapshot_copies_and_view_sorts:
  assumes inStore: "received < length st"
    and dates: "\<forall>c\<in>set (checkIns v). g (timestamp c) \<noteq> None"
    and present: "view v \<noteq> None"
    and ready: "webviewReady v"
  shows
    "fst (getAllCheckIns st received) ! snd (getAllCheckIns st received) = st ! received
     \<and> snd (getAllCheckIns st received) \<noteq> received
     \<and> (\<forall>i<length st. fst (getAllCheckIns st received) ! i = st ! i)
     \<and> (\<forall>xs. writeArray (fst (getAllCheckIns st received)) (snd (getAllCheckIns st received)) xs
               ! received = st ! received)
     \<and> (\<exists>sent rest. snd (updateView g v) = PostUpdateCheckIns sent # rest
            \<and> mset sent = mset (checkIns v)
            \<and> sorted_wrt (\<lambda>a b. timeOf g b \<le> timeOf g a) sent)
     \<and> checkIns (fst (updateView g v)) = checkIns v"
proof -
  note copy = getAllCheckIns_copy [OF inStore]
  have "snd (updateView g v) =
          PostUpdateCheckIns (sortBy (newestFirst g) (checkIns v)) # updateOnlineUsersCount v"
    by (rule updateView_posts [OF present ready])
  moreover have "mset (sortBy (newestFirst g) (checkIns v)) = mset (checkIns v)"
    by (rule mset_sortBy)
  moreover have "sorted_wrt (\<lambda>a b. timeOf g b \<le> timeOf g a) (sortBy (newestFirst g) (checkIns v))"
    by (rule sorted_sortBy [OF dates])
  ultimately have sent: "\<exists>sent rest. snd (updateView g v) = PostUpdateCheckIns sent # rest
            \<and> mset sent = mset (checkIns v)
            \<and> sorted_wrt (\<lambda>a b. timeOf g b \<le> timeOf g a) sent"
    by blast
  from copy sent updateView_checkIns [of g v] show ?thesis by (intro conjI)
qed

theorem snapshot_copies_and_view_sorts_witness:
  "snd (updateView isoTime
          \<lparr>view = Some True,
           checkIns = [entry ''alice'' ''debugging'' ''2024-01-01T10:00:00.000Z'',
                       entry ''bob'' ''shipping'' ''2024-01-01T11:00:00.000Z''],
           webviewReady = True, pendingCheckIns = [], onlineUsersCount = 2,
           newCheckInsCount = 0\<rparr>)
   = [PostUpdateCheckIns [entry ''bob'' ''shipping'' ''2024-01-01T11:00:00.000Z'',
                          entry ''alice'' ''debugging'' ''2024-01-01T10:00:00.000Z''],
      PostUpdateOnlineUsers 2]
   \<and> writeArray
        (fst (getAllCheckIns [[entry ''alice'' ''debugging'' ''2024-01-01T10:00:00.000Z'',
                               entry ''bob'' ''shipping'' ''2024-01-01T11:00:00.000Z'']] 0))
        (snd (getAllCheckIns [[entry ''alice'' ''debugging'' ''2024-01-01T10:00:00.000Z'',
                               entry ''bob'' ''shipping'' ''2024-01-01T11:00:00.000Z'']] 0))
        [] ! 0
      = [entry ''alice'' ''debugging'' ''2024-01-01T10:00:00.000Z'',
         entry ''bob'' ''shipping'' ''2024-01-01T11:00:00.000Z'']"
proof -
  let ?alice = "entry ''alice'' ''debugging'' ''2024-01-01T10:00:00.000Z''"
  let ?bob = "entry ''bob'' ''shipping'' ''2024-01-01T11:00:00.000Z''"
  let ?v = "\<lparr>view = Some True, checkIns = [?alice, ?bob], webviewReady = True,
            pendingCheckIns = [], onlineUsersCount = 2, newCheckInsCount = 0\<rparr>"
  let ?st = "[[?alice, ?bob]]"
  have ta: "isoTime (timestamp ?alice) = Some 1704103200000" by code_simp
  have tb: "isoTime (timestamp ?bob) = Some 1704106800000" by code_simp
  have inStore: "0 < length ?st" by simp
  have dates: "\<forall>c\<in>set (checkIns ?v). isoTime (timestamp c) \<noteq> None" using ta tb by simp
  have present: "view ?v \<noteq> None" by simp
  have ready: "webviewReady ?v" by simp
  note inst = snapshot_copies_and_view_sorts [OF inStore dates present ready]
  have sent: "snd (updateView isoTime ?v) = [PostUpdateCheckIns [?bob, ?alice], PostUpdateOnlineUsers 2]"
    using ta tb
    by (simp add: updateView_def updateOnlineUsersCount_def sortBy_def newestFirst_def)
  from inst have "writeArray (fst (getAllCheckIns ?st 0)) (snd (getAllCheckIns ?st 0)) [] ! 0 = ?st ! 0"
    by blast
  with sent show ?thesis by simp
qed

text \<open>
  The claim as stated fails on \<open>getAllCheckIns\<close>: after alice's check-in of 10:00 and
  bob's of 11:00 it returns alice's first, the earlier one.
\<close>

theorem snapshot_counterexample:
  "allReceivedCheckIns (storeCheckIns isoTime
      [entry ''alice'' ''debugging'' ''2024-01-01T10:00:00.000Z'',
       entry ''bob'' ''shipping'' ''2024-01-01T11:00:00.000Z''] (newClient 10))
   = [entry ''alice'' ''debugging'' ''2024-01-01T10:00:00.000Z'',
      entry ''bob'' ''shipping'' ''2024-01-01T11:00:00.000Z'']
   \<and> fst (getAllCheckIns [[entry ''alice'' ''debugging'' ''2024-01-01T10:00:00.000Z'',
                            entry ''bob'' ''shipping'' ''2024-01-01T11:00:00.000Z'']] 0)
       ! snd (getAllCheckIns [[entry ''alice'' ''debugging'' ''2024-01-01T10:00:00.000Z'',
                               entry ''bob'' ''shipping'' ''2024-01-01T11:00:00.000Z'']] 0)
     = [entry ''alice'' ''debugging'' ''2024-01-01T10:00:00.000Z'',
        entry ''bob'' ''shipping'' ''2024-01-01T11:00:00.000Z'']
   \<and> \<not> sorted_wrt (\<lambda>a b. timeOf isoTime b \<le> timeOf isoTime a)
        [entry ''alice'' ''debugging'' ''2024-01-01T10:00:00.000Z'',
         entry ''bob'' ''shipping'' ''2024-01-01T11:00:00.000Z'']"
proof -
  let ?alice = "entry ''alice'' ''debugging'' ''2024-01-01T10:00:00.000Z''"
  let ?bob = "entry ''bob'' ''shipping'' ''2024-01-01T11:00:00.000Z''"
  have ta: "isoTime (timestamp ?alice) = Some 1704103200000" by code_simp
  have tb: "isoTime (timestamp ?bob) = Some 1704106800000" by code_simp
  have names: "username ?alice \<noteq> username ?bob" by (simp add: entry_def js_def)
  have stored: "allReceivedCheckIns (storeCheckIns isoTime [?alice, ?bob] (newClient 10)) = [?alice, ?bob]"
    using names by (simp add: storeCheckIn_def storeInto_def newClient_def)
  have copy: "fst (getAllCheckIns [[?alice, ?bob]] 0) ! snd (getAllCheckIns [[?alice, ?bob]] 0)
              = [?alice, ?bob]"
    by (simp add: getAllCheckIns_def spread_def)
  have order: "\<not> sorted_wrt (\<lambda>a b. timeOf isoTime b \<le> timeOf isoTime a) [?alice, ?bob]"
    using ta tb by (simp add: timeOf_def)
  from stored copy order show ?thesis by (intro conjI)
qed

section \<open>Truncation\<close>

text \<open>
  C6. The message a submission carries is the input when the input has at most 42 code
  units and its first 42 code units otherwise; truncating twice is truncating once.
  \<open>sendCheckIn\<close> never rejects a message for its length: the call succeeds exactly when
  the cooldown allows it, and then the frame sent on an open socket, and the check-in
  stored locally on either path, carry the truncated message.
\<close>

theorem truncation_exact:
  "(length m \<le> 42 \<longrightarrow> truncateMessage m = m)
   \<and> (42 < length m \<longrightarrow> truncateMessage m = take 42 m \<and> length (truncateMessage m) = 42)
   \<and> truncateMessage (truncateMessage m) = truncateMessage m
   \<and> fst (sendCheckIn_run h random now clk user tgs m tok w) = canCheckIn now w
   \<and> (canCheckIn now w \<and> socket w = Some OPEN
        \<longrightarrow> (\<exists>frame rest. snd (snd (sendCheckIn_run h random now clk user tgs m tok w))
                              = SocketSend (CheckInFrame frame) # rest
                            \<and> message frame = truncateMessage m))
   \<and> (canCheckIn now w
        \<longrightarrow> (\<exists>c. allReceivedCheckIns (fst (snd (sendCheckIn_run h random now clk user tgs m tok w)))
                        = storeInto (dateTime h) (allReceivedCheckIns w) c
                      \<and> username c = user \<and> message c = truncateMessage m))"
proof -
  have a: "length m \<le> 42 \<longrightarrow> truncateMessage m = m"
    by (simp add: truncateMessage_def MAX_CHARS_def)
  have b: "42 < length m \<longrightarrow> truncateMessage m = take 42 m \<and> length (truncateMessage m) = 42"
    by (simp add: truncateMessage_def MAX_CHARS_def)
  have c: "truncateMessage (truncateMessage m) = truncateMessage m"
    by (simp add: truncateMessage_def MAX_CHARS_def)
  have d: "fst (sendCheckIn_run h random now clk user tgs m tok w) = canCheckIn now w"
    by (simp add: sendCheckIn_run_def sendCheckIn_def sendCheckIn_then_def
        simulateCheckInResponse_def Let_def)
  have e: "canCheckIn now w \<and> socket w = Some OPEN
        \<longrightarrow> (\<exists>frame rest. snd (snd (sendCheckIn_run h random now clk user tgs m tok w))
                              = SocketSend (CheckInFrame frame) # rest
                            \<and> message frame = truncateMessage m)"
    by (simp add: sendCheckIn_run_def sendCheckIn_def sendCheckIn_then_def Let_def)
  have f: "canCheckIn now w
        \<longrightarrow> (\<exists>c. allReceivedCheckIns (fst (snd (sendCheckIn_run h random now clk user tgs m tok w)))
                        = storeInto (dateTime h) (allReceivedCheckIns w) c
                      \<and> username c = user \<and> message c = truncateMessage m)"
  proof (cases "socket w = Some OPEN")
    case True
    then show ?thesis
      by (auto simp: sendCheckIn_run_def sendCheckIn_def sendCheckIn_then_def Let_def
          storeCheckIn_def c intro!: exI)
  next
    case False
    then show ?thesis
      by (auto simp: sendCheckIn_run_def sendCheckIn_def sendCheckIn_then_def Let_def
          simulateCheckInResponse_def storeCheckIn_def c intro!: exI)
  qed
  from a b c d e f show ?thesis by (intro conjI)
qed


theorem truncation_exact_witness:
  "truncateMessage (replicate 50 0x61) = replicate 42 0x61
   \<and> truncateMessage (js ''debugging'') = js ''debugging''
   \<and> fst (sendCheckIn_run exampleHost 0 1700000000000
          \<lparr>stampTime = 1700000000200, signTime = 1700000000200, recordTime = 1700000000201,
           timerTime1 = 1700000000201, timerTime2 = 1700000000201\<rparr>
          (js ''zed'') [js ''python''] (replicate 50 0x61) None
          ((newClient 10)\<lparr>socket := Some OPEN\<rparr>))"
proof -
  let ?w = "(newClient 10)\<lparr>socket := Some OPEN\<rparr>"
  let ?clk = "\<lparr>stampTime = 1700000000200, signTime = 1700000000200, recordTime = 1700000000201,
           timerTime1 = 1700000000201, timerTime2 = 1700000000201\<rparr>"
  have long: "42 < length (replicate 50 (0x61 :: 16 word))" by simp
  have short: "length (js ''debugging'') \<le> 42" by (simp add: js_def)
  have gate: "canCheckIn 1700000000000 ?w" by (simp add: canCheckIn_def newClient_def)
  from truncation_exact [of "replicate 50 0x61" exampleHost 0 1700000000000 ?clk
      "js ''zed''" "[js ''python'']" None ?w] long gate
  have "truncateMessage (replicate 50 0x61) = take 42 (replicate 50 (0x61 :: 16 word))"
    and "fst (sendCheckIn_run exampleHost 0 1700000000000 ?clk (js ''zed'') [js ''python'']
           (replicate 50 0x61) None ?w)"
    by blast+
  moreover from truncation_exact [of "js ''debugging''" exampleHost 0 1700000000000 ?clk
      "js ''zed''" "[js ''python'']" None ?w] short
  have "truncateMessage (js ''debugging'') = js ''debugging''" by blast
  ultimately show ?thesis by simp
qed

section \<open>Signing\<close>



section \<open>Inbound messages and repeated connects\<close>

lemma storeCheckIn_received:
  "allReceivedCheckIns (storeCheckIn g c w) = storeInto g (allReceivedCheckIns w) c"
  by (simp add: storeCheckIn_def)

text \<open>
  C9. The receive handler acts on what the payload parses to. A \<open>new_checkin\<close> is stored
  and announced; an \<open>online_users\<close> message sets the count and announces it; an \<open>error\<close>
  notice is logged and shown and changes no state. A payload that does not parse, or
  that is of none of these three types, changes no state at all: the buffer, the count
  and the socket stay as they were, and the only effect is the log entry of the parse
  error. No message whatsoever makes the handler close or replace the socket.
\<close>

theorem inbound_classification:
  "(\<forall>c. jsonParse h data = NewCheckIn c
        \<longrightarrow> allReceivedCheckIns (fst (onMessage h now data w))
              = storeInto (dateTime h) (allReceivedCheckIns w) c
            \<and> onlineUsersCount (fst (onMessage h now data w)) = onlineUsersCount w
            \<and> FireMessageReceived c \<in> set (snd (onMessage h now data w)))
   \<and> (\<forall>n. jsonParse h data = OnlineUsers n
        \<longrightarrow> onMessage h now data w = (w\<lparr>onlineUsersCount := n\<rparr>, [FireOnlineUsersChanged n]))
   \<and> (\<forall>text. jsonParse h data = ErrorNotice text
        \<longrightarrow> onMessage h now data w
              = (w, [ConsoleError, ShowErrorMessage (js ''Server error: '' @ text)]))
   \<and> (jsonParse h data = ParseThrows \<longrightarrow> onMessage h now data w = (w, [ConsoleError]))
   \<and> (jsonParse h data = OtherValue \<longrightarrow> onMessage h now data w = (w, []))
   \<and> socket (fst (onMessage h now data w)) = socket w
   \<and> SocketClose \<notin> set (snd (onMessage h now data w))"
proof -
  have a: "\<forall>c. jsonParse h data = NewCheckIn c
        \<longrightarrow> allReceivedCheckIns (fst (onMessage h now data w))
              = storeInto (dateTime h) (allReceivedCheckIns w) c
            \<and> onlineUsersCount (fst (onMessage h now data w)) = onlineUsersCount w
            \<and> FireMessageReceived c \<in> set (snd (onMessage h now data w))"
    by (simp add: onMessage_def Let_def storeCheckIn_def)
  have b: "\<forall>n. jsonParse h data = OnlineUsers n
        \<longrightarrow> onMessage h now data w = (w\<lparr>onlineUsersCount := n\<rparr>, [FireOnlineUsersChanged n])"
    by (simp add: onMessage_def)
  have c: "\<forall>text. jsonParse h data = ErrorNotice text
        \<longrightarrow> onMessage h now data w
              = (w, [ConsoleError, ShowErrorMessage (js ''Server error: '' @ text)])"
    by (simp add: onMessage_def)
  have d: "jsonParse h data = ParseThrows \<longrightarrow> onMessage h now data w = (w, [ConsoleError])"
    by (simp add: onMessage_def)
  have e: "jsonParse h data = OtherValue \<longrightarrow> onMessage h now data w = (w, [])"
    by (simp add: onMessage_def)
  have f: "socket (fst (onMessage h now data w)) = socket w"
    by (cases "jsonParse h data") (simp_all add: onMessage_def Let_def storeCheckIn_def)
  have g: "SocketClose \<notin> set (snd (onMessage h now data w))"
    by (cases "jsonParse h data") (simp_all add: onMessage_def Let_def)
  from a b c d e f g show ?thesis by (intro conjI)
qed

theorem inbound_classification_witness:
  "onMessage exampleHost 1700000000000 (js ''not json'') ((newClient 10)\<lparr>socket := Some OPEN\<rparr>)
     = ((newClient 10)\<lparr>socket := Some OPEN\<rparr>, [ConsoleError])
   \<and> onMessage exampleHost 1700000000000 pongPayload ((newClient 10)\<lparr>socket := Some OPEN\<rparr>)
     = ((newClient 10)\<lparr>socket := Some OPEN\<rparr>, [])
   \<and> onlineUsersCount (fst (onMessage exampleHost 1700000000000 onlineUsersPayload
        ((newClient 10)\<lparr>socket := Some OPEN\<rparr>))) = 7"
proof -
  let ?w = "(newClient 10)\<lparr>socket := Some OPEN\<rparr>"
  have p1: "jsonParse exampleHost (js ''not json'') = ParseThrows"
    by (simp add: exampleHost_def exampleParse_def onlineUsersPayload_def pongPayload_def
        quoted_def js_def)
  have p2: "jsonParse exampleHost pongPayload = OtherValue"
    by (simp add: exampleHost_def exampleParse_def onlineUsersPayload_def pongPayload_def
        quoted_def js_def)
  have p3: "jsonParse exampleHost onlineUsersPayload = OnlineUsers 7"
    by (simp add: exampleHost_def exampleParse_def)
  from inbound_classification [of exampleHost "js ''not json''" 1700000000000 ?w] p1
  have "onMessage exampleHost 1700000000000 (js ''not json'') ?w = (?w, [ConsoleError])"
    by blast
  moreover from inbound_classification [of exampleHost pongPayload 1700000000000 ?w] p2
  have "onMessage exampleHost 1700000000000 pongPayload ?w = (?w, [])"
    by blast
  moreover from inbound_classification [of exampleHost onlineUsersPayload 1700000000000 ?w] p3
  have "onMessage exampleHost 1700000000000 onlineUsersPayload ?w
        = (?w\<lparr>onlineUsersCount := 7\<rparr>, [FireOnlineUsersChanged 7])"
    by blast
  ultimately show ?thesis by simp
qed

text \<open>
  C7, as the code has it. While the socket is connecting or open, \<open>connect\<close> leaves the
  client as it is: it requests no token, creates no socket and closes none. On an open
  socket it fires the status event \<open>true\<close>; on a connecting socket it fires no event and
  only logs.
\<close>

theorem connect_is_idle_when_connected:
  "(socket w = Some CONNECTING \<or> socket w = Some OPEN
      \<longrightarrow> fst (connect w) = w
          \<and> GetAuthToken \<notin> set (snd (connect w))
          \<and> SocketClose \<notin> set (snd (connect w))
          \<and> SocketRemoveAllListeners \<notin> set (snd (connect w)))
   \<and> (socket w = Some OPEN
      \<longrightarrow> snd (connect w) = [ConsoleLog, FireConnectionStatusChanged True])
   \<and> (socket w = Some CONNECTING \<longrightarrow> snd (connect w) = [ConsoleLog])"
  by (auto simp: connect_def)

theorem connect_is_idle_when_connected_witness:
  "connect ((newClient 10)\<lparr>socket := Some OPEN\<rparr>)
     = ((newClient 10)\<lparr>socket := Some OPEN\<rparr>, [ConsoleLog, FireConnectionStatusChanged True])
   \<and> connect ((newClient 10)\<lparr>socket := Some CONNECTING\<rparr>)
     = ((newClient 10)\<lparr>socket := Some CONNECTING\<rparr>, [ConsoleLog])"
proof -
  have o: "socket ((newClient 10)\<lparr>socket := Some OPEN\<rparr>) = Some OPEN" by simp
  have c: "socket ((newClient 10)\<lparr>socket := Some CONNECTING\<rparr>) = Some CONNECTING" by simp
  from connect_is_idle_when_connected [of "(newClient 10)\<lparr>socket := Some OPEN\<rparr>"] o
  have "fst (connect ((newClient 10)\<lparr>socket := Some OPEN\<rparr>)) = (newClient 10)\<lparr>socket := Some OPEN\<rparr>"
    and "snd (connect ((newClient 10)\<lparr>socket := Some OPEN\<rparr>))
         = [ConsoleLog, FireConnectionStatusChanged True]"
    by blast+
  moreover
  from connect_is_idle_when_connected [of "(newClient 10)\<lparr>socket := Some CONNECTING\<rparr>"] c
  have "fst (connect ((newClient 10)\<lparr>socket := Some CONNECTING\<rparr>))
        = (newClient 10)\<lparr>socket := Some CONNECTING\<rparr>"
    and "snd (connect ((newClient 10)\<lparr>socket := Some CONNECTING\<rparr>)) = [ConsoleLog]"
    by blast+
  ultimately show ?thesis by (simp add: prod_eq_iff)
qed

text \<open>
  The claim as stated fails while the socket is connecting: a further \<open>connect\<close> fires no
  status event.
\<close>

theorem connect_counterexample:
  "socket ((newClient 10)\<lparr>socket := Some CONNECTING\<rparr>) = Some CONNECTING
   \<and> FireConnectionStatusChanged True
        \<notin> set (snd (connect ((newClient 10)\<lparr>socket := Some CONNECTING\<rparr>)))
   \<and> FireConnectionStatusChanged False
        \<notin> set (snd (connect ((newClient 10)\<lparr>socket := Some CONNECTING\<rparr>)))"
  by (simp add: connect_def)

section \<open>Reconnect backoff\<close>

lemma transportClosed_schedules:
  assumes "\<not> isAuthClose code reason" "autoReconnect w"
  shows "scheduledReconnect (snd (transportClosed code reason w)) = Some (reconnectInterval w)"
    and "reconnectInterval (fst (transportClosed code reason w)) = reconnectInterval w"
    and "autoReconnect (fst (transportClosed code reason w))"
    and "socket (fst (transportClosed code reason w)) \<noteq> Some CONNECTING"
    and "socket (fst (transportClosed code reason w)) \<noteq> Some OPEN"
  using assms by (auto simp: transportClosed_def onClose_def)

lemma onReconnectTimer_grows:
  assumes "socket w \<noteq> Some CONNECTING" "socket w \<noteq> Some OPEN"
  shows "reconnectInterval (fst (onReconnectTimer w)) = min (reconnectInterval w * 1.5) 30000"
    and "autoReconnect (fst (onReconnectTimer w)) = autoReconnect w"
    and "GetAuthToken \<in> set (snd (onReconnectTimer w))"
proof -
  have other: "socket w = None \<or> socket w = Some CLOSING \<or> socket w = Some CLOSED"
    using assms by (cases "socket w") (auto intro: readyState.exhaust)
  then show "reconnectInterval (fst (onReconnectTimer w)) = min (reconnectInterval w * 1.5) 30000"
    by (auto simp: onReconnectTimer_def connect_def)
  from other show "autoReconnect (fst (onReconnectTimer w)) = autoReconnect w"
    by (auto simp: onReconnectTimer_def connect_def)
  from other show "GetAuthToken \<in> set (snd (onReconnectTimer w))"
    by (auto simp: onReconnectTimer_def connect_def)
qed

lemma connect_then_keeps:
  "reconnectInterval (fst (connect_then False tok w)) = reconnectInterval w"
  "autoReconnect (fst (connect_then False tok w)) = autoReconnect w"
  by (simp_all add: connect_then_def)

lemma failedAttempts_step:
  assumes "\<not> isAuthClose code reason" "autoReconnect w"
  shows "\<exists>w'. failedAttempts ((code, reason, tok) # rest) w = reconnectInterval w # failedAttempts rest w'
              \<and> reconnectInterval w' = min (reconnectInterval w * 1.5) 30000
              \<and> autoReconnect w'"
proof -
  let ?w1 = "fst (transportClosed code reason w)"
  let ?w2 = "fst (onReconnectTimer ?w1)"
  let ?w3 = "fst (connect_then False tok ?w2)"
  note c = transportClosed_schedules [OF assms]
  note t = onReconnectTimer_grows [OF c(4) c(5)]
  have "failedAttempts ((code, reason, tok) # rest) w = reconnectInterval w # failedAttempts rest ?w3"
    using c(1) t(3) by (simp add: split_beta Let_def)
  moreover have "reconnectInterval ?w3 = min (reconnectInterval w * 1.5) 30000"
    using t(1) c(2) by (simp add: connect_then_keeps)
  moreover have "autoReconnect ?w3" using t(2) c(3) by (simp add: connect_then_keeps)
  ultimately show ?thesis by blast
qed

lemma capped_growth:
  fixes r :: real
  shows "min (min (r * 1.5) 30000 * 1.5 ^ n) 30000 = min (r * 1.5 ^ Suc n) 30000"
proof -
  have one: "(1::real) \<le> 1.5 ^ n" by (rule one_le_power) simp
  show ?thesis
  proof (cases "r * 1.5 \<le> 30000")
    case True
    then have "min (r * 1.5) 30000 = r * 1.5" by (simp add: min_def)
    moreover have "r * 1.5 ^ Suc n = r * 1.5 * 1.5 ^ n" by simp
    ultimately show ?thesis by (simp only:)
  next
    case False
    then have big: "30000 < r * 1.5" by simp
    have "30000 * 1 \<le> (30000::real) * 1.5 ^ n" using one by (intro mult_left_mono) simp_all
    then have cap: "(30000::real) \<le> 30000 * 1.5 ^ n" by simp
    have "(30000::real) \<le> 30000 * 1.5 ^ n" by (rule cap)
    also have "30000 * 1.5 ^ n \<le> (r * 1.5) * 1.5 ^ n"
      using big one by (intro mult_right_mono) simp_all
    also have "(r * 1.5) * 1.5 ^ n = r * 1.5 ^ Suc n" by simp
    finally have top: "30000 \<le> r * 1.5 ^ Suc n" .
    have "min (r * 1.5) 30000 = 30000" by (rule min_absorb2) (rule less_imp_le [OF big])
    moreover have "min (30000 * 1.5 ^ n) (30000::real) = 30000" by (rule min_absorb2) (rule cap)
    moreover have "min (r * 1.5 ^ Suc n) 30000 = 30000" by (rule min_absorb2) (rule top)
    ultimately show ?thesis by (simp only:)
  qed
qed

lemma failedAttempts_delays:
  "autoReconnect w \<Longrightarrow> reconnectInterval w \<le> 30000
   \<Longrightarrow> \<forall>(code, reason, tok)\<in>set closes. \<not> isAuthClose code reason
   \<Longrightarrow> failedAttempts closes w
       = map (\<lambda>n. min (reconnectInterval w * 1.5 ^ n) 30000) [0..<length closes]"
proof (induction closes arbitrary: w)
  case Nil
  show ?case by simp
next
  case (Cons x closes)
  obtain code reason tok where x: "x = (code, reason, tok)" by (cases x) auto
  from Cons.prems x have notAuth: "\<not> isAuthClose code reason"
    and rest: "\<forall>(code, reason, tok)\<in>set closes. \<not> isAuthClose code reason" by auto
  from failedAttempts_step [OF notAuth Cons.prems(1), of tok closes] obtain w'
    where step: "failedAttempts ((code, reason, tok) # closes) w = reconnectInterval w # failedAttempts closes w'"
      and grown: "reconnectInterval w' = min (reconnectInterval w * 1.5) 30000"
      and auto': "autoReconnect w'"
    by blast
  have capped: "reconnectInterval w' \<le> 30000" by (simp add: grown)
  have "failedAttempts closes w'
        = map (\<lambda>n. min (reconnectInterval w * 1.5 ^ Suc n) 30000) [0..<length closes]"
    using Cons.IH [OF auto' capped rest] by (simp only: grown capped_growth)
  then have "failedAttempts (x # closes) w
        = reconnectInterval w # map (\<lambda>n. min (reconnectInterval w * 1.5 ^ Suc n) 30000) [0..<length closes]"
    using step x by simp
  moreover have "map (\<lambda>n. min (reconnectInterval w * 1.5 ^ n) 30000) [0..<length (x # closes)]
        = min (reconnectInterval w) 30000 # map (\<lambda>n. min (reconnectInterval w * 1.5 ^ Suc n) 30000) [0..<length closes]"
    by (simp add: map_upt_Suc del: upt_Suc)
  moreover have "min (reconnectInterval w) 30000 = reconnectInterval w"
    using Cons.prems(2) by simp
  ultimately show ?case by simp
qed

text \<open>
  C5. Let connection attempts fail one after the other from a client whose reconnect
  interval is the base delay of 5000 ms (as constructed, or after an open), with
  automatic reconnection on and no close being an authentication failure. Every close
  then sets a reconnect timer, and the delay of the \<open>k\<close>-th timer is
  \<open>min (5000 * 1.5 ^ (k - 1)) 30000\<close>. When the transport opens, the interval is 5000 again.
\<close>

theorem backoff_delays:
  assumes base: "reconnectInterval w = 5000"
    and auto: "autoReconnect w"
    and closes: "\<forall>(code, reason, tok)\<in>set closes. \<not> isAuthClose code reason"
    and k: "1 \<le> k" "k \<le> length closes"
  shows "length (failedAttempts closes w) = length closes
         \<and> failedAttempts closes w ! (k - 1) = min (5000 * 1.5 ^ (k - 1)) 30000
         \<and> reconnectInterval (fst (transportOpened now w')) = 5000
         \<and> reconnectInterval (newClient minutes) = 5000
         \<and> autoReconnect (newClient minutes)"
proof -
  have capped: "reconnectInterval w \<le> 30000" using base by simp
  note delays = failedAttempts_delays [OF auto capped closes]
  have len: "length (failedAttempts closes w) = length closes" by (simp add: delays)
  have "k - 1 < length closes" using k by simp
  then have nth: "failedAttempts closes w ! (k - 1) = min (5000 * 1.5 ^ (k - 1)) 30000"
    by (simp add: delays base)
  have opened: "reconnectInterval (fst (transportOpened now w')) = 5000"
    by (simp add: transportOpened_def onOpen_def)
  have fresh: "reconnectInterval (newClient minutes) = 5000" "autoReconnect (newClient minutes)"
    by (simp_all add: newClient_def)
  from len nth opened fresh show ?thesis by (intro conjI)
qed

theorem backoff_delays_witness:
  "failedAttempts (replicate 6 (1006, None, None)) ((newClient 10)\<lparr>socket := Some CONNECTING\<rparr>) ! 0 = 5000
   \<and> failedAttempts (replicate 6 (1006, None, None)) ((newClient 10)\<lparr>socket := Some CONNECTING\<rparr>) ! 1 = 7500
   \<and> failedAttempts (replicate 6 (1006, None, None)) ((newClient 10)\<lparr>socket := Some CONNECTING\<rparr>) ! 4 = 25312.5
   \<and> failedAttempts (replicate 6 (1006, None, None)) ((newClient 10)\<lparr>socket := Some CONNECTING\<rparr>) ! 5 = 30000"
proof -
  let ?closes = "replicate 6 (1006 :: int, None :: utf16 option, None :: utf16 option)"
  let ?w = "(newClient 10)\<lparr>socket := Some CONNECTING\<rparr>"
  have base: "reconnectInterval ?w = 5000" by (simp add: newClient_def)
  have auto: "autoReconnect ?w" by (simp add: newClient_def)
  have closes: "\<forall>(code, reason, tok)\<in>set ?closes. \<not> isAuthClose code reason"
    by (simp add: isAuthClose_def)
  have len: "length ?closes = 6" by simp
  from backoff_delays [OF base auto closes, of 1] len
  have d1: "failedAttempts ?closes ?w ! (1 - 1) = min (5000 * 1.5 ^ (1 - 1)) 30000"
    by simp
  from backoff_delays [OF base auto closes, of 2] len
  have d2: "failedAttempts ?closes ?w ! (2 - 1) = min (5000 * 1.5 ^ (2 - 1)) 30000"
    by simp
  from backoff_delays [OF base auto closes, of 5] len
  have d5: "failedAttempts ?closes ?w ! (5 - 1) = min (5000 * 1.5 ^ (5 - 1)) 30000"
    by simp
  from backoff_delays [OF base auto closes, of 6] len
  have d6: "failedAttempts ?closes ?w ! (6 - 1) = min (5000 * 1.5 ^ (6 - 1)) 30000"
    by simp
  have "min (5000 * 1.5 ^ (1 - 1)) (30000::real) = 5000" by simp
  moreover have "min (5000 * 1.5 ^ (2 - 1)) (30000::real) = 7500" by simp
  moreover have "min (5000 * 1.5 ^ (5 - 1)) (30000::real) = 25312.5" by (simp add: power4_eq_xxxx)
  moreover have "min (5000 * 1.5 ^ (6 - 1)) (30000::real) = 30000" by (simp add: power_numeral_reduce)
  moreover note d1 d2 d5 d6
  ultimately show ?thesis by simp
qed

end
